theory Spec2Isabelle
  imports Complex_Main
begin

section \<open>Numbers, errors and arrays\<close>

text \<open>
  The program computes on NumPy arrays of double-precision numbers. Every number is
  modelled as a \<^typ>\<open>real\<close>: rounding, overflow and signed zeros are outside the
  model, the arithmetic structure of each function is inside it. A raised Python exception
  is a value of type \<open>error\<close>, returned on the left of a sum.
\<close>

datatype error = ValueError | IndexError

text \<open>
  A mesh array with the two leading axes \<open>Nx\<close>, \<open>Ny\<close> is a list of rows; the type of
  the entries carries the trailing axes.
\<close>

type_synonym 'a grid = "'a list list"

definition same_shape :: "'a grid \<Rightarrow> 'b grid \<Rightarrow> bool" where
  "same_shape A B = (map length A = map length B)"

text \<open>
  An array operation that fails on one entry fails as a whole: \<open>collect\<close> gathers the
  per-entry results of such an operation and keeps the first error.
\<close>

fun collect :: "(error + 'a) list \<Rightarrow> error + 'a list" where
  "collect [] = Inr []"
| "collect (x # xs) =
     (case x of
        Inl e \<Rightarrow> Inl e
      | Inr v \<Rightarrow> (case collect xs of Inl e \<Rightarrow> Inl e | Inr vs \<Rightarrow> Inr (v # vs)))"

text \<open>\<open>np.max\<close> along an axis: a reduction that has no identity, so an empty axis raises.\<close>

fun amax :: "real list \<Rightarrow> error + real" where
  "amax [] = Inl ValueError"
| "amax (x # xs) = Inr (fold max xs x)"

text \<open>One statement after another: the first exception ends the evaluation.\<close>

definition seq :: "error + 'a \<Rightarrow> ('a \<Rightarrow> error + 'b) \<Rightarrow> error + 'b" where
  "seq r f = (case r of Inl e \<Rightarrow> Inl e | Inr v \<Rightarrow> f v)"

definition collect_grid :: "(error + 'a) grid \<Rightarrow> error + 'a grid" where
  "collect_grid X = collect (map collect X)"

text \<open>
  Broadcasting. Where two operands differ in the length of an axis, NumPy stretches an
  axis of length one to the length of the other; two different lengths, neither of them
  one, raise. \<open>broadcast_axis\<close> pairs the entries of two operands along one axis,
  \<open>broadcast_grid\<close> applies a binary operation over the two mesh axes. An array without
  rows is the empty list, whatever the length of its rows.
\<close>

definition broadcast_axis :: "'a list \<Rightarrow> 'b list \<Rightarrow> error + ('a \<times> 'b) list" where
  "broadcast_axis xs ys =
     (if length xs = length ys then Inr (zip xs ys)
      else if length xs = 1 then Inr (map (\<lambda>y. (hd xs, y)) ys)
      else if length ys = 1 then Inr (map (\<lambda>x. (x, hd ys)) xs)
      else Inl ValueError)"

definition broadcast_grid :: "('a \<Rightarrow> 'b \<Rightarrow> 'c) \<Rightarrow> 'a grid \<Rightarrow> 'b grid \<Rightarrow> error + 'c grid" where
  "broadcast_grid f A B =
     (case broadcast_axis A B of
        Inl e \<Rightarrow> Inl e
      | Inr rows \<Rightarrow>
          collect (map (\<lambda>(ra, rb). case broadcast_axis ra rb of
                                      Inl e \<Rightarrow> Inl e
                                    | Inr cs \<Rightarrow> Inr (map (\<lambda>(a, b). f a b) cs))
                       rows))"

text \<open>
  An assignment into an array broadcasts the assigned value to the shape of the target:
  only the axes of the value are stretched.
\<close>

definition assign_axis :: "'a list \<Rightarrow> nat \<Rightarrow> error + 'a list" where
  "assign_axis xs n =
     (if length xs = n then Inr xs
      else if length xs = 1 then Inr (replicate n (hd xs))
      else Inl ValueError)"

definition broadcast_to :: "'a grid \<Rightarrow> 'b grid \<Rightarrow> error + 'a grid" where
  "broadcast_to X target =
     (case assign_axis X (length target) of
        Inl e \<Rightarrow> Inl e
      | Inr rows \<Rightarrow> collect (map (\<lambda>(r, t). assign_axis r (length t)) (zip rows target)))"

text \<open>
  What a grid is, entry by entry: \<open>G\<close> has the shape of \<open>A\<close> and holds \<open>g i j\<close> at
  position \<open>(i, j)\<close>.
\<close>

definition grid_is :: "'a grid \<Rightarrow> 'b grid \<Rightarrow> (nat \<Rightarrow> nat \<Rightarrow> 'a) \<Rightarrow> bool" where
  "grid_is G A g =
     (length G = length A
      \<and> (\<forall>i<length A. length (G ! i) = length (A ! i)
            \<and> (\<forall>j<length (A ! i). G ! i ! j = g i j)))"

subsection \<open>The extended numbers of NumPy\<close>

text \<open>
  A division of doubles never raises: a zero divisor gives an infinity, or NaN for
  \<open>0 / 0\<close>, and these values propagate through the arithmetic that follows. Where a
  claim is about such values, the numbers are those of \<open>npfloat\<close>: the reals, still
  without rounding, overflow and signed zeros, with the two infinities and NaN, under
  the operations of IEEE 754.
\<close>

datatype npfloat = Finite real | PosInf | NegInf | NaN

definition true_divide :: "real \<Rightarrow> real \<Rightarrow> npfloat" where
  "true_divide x y =
     (if y = 0 then (if x = 0 then NaN else if 0 < x then PosInf else NegInf)
      else Finite (x / y))"

definition signed_inf :: "real \<Rightarrow> npfloat" where
  "signed_inf x = (if x = 0 then NaN else if 0 < x then PosInf else NegInf)"

fun np_negative :: "npfloat \<Rightarrow> npfloat" where
  "np_negative (Finite x) = Finite (- x)"
| "np_negative PosInf = NegInf"
| "np_negative NegInf = PosInf"
| "np_negative NaN = NaN"

fun np_add :: "npfloat \<Rightarrow> npfloat \<Rightarrow> npfloat" where
  "np_add (Finite x) (Finite y) = Finite (x + y)"
| "np_add NaN y = NaN"
| "np_add x NaN = NaN"
| "np_add PosInf NegInf = NaN"
| "np_add NegInf PosInf = NaN"
| "np_add PosInf y = PosInf"
| "np_add x PosInf = PosInf"
| "np_add NegInf y = NegInf"
| "np_add x NegInf = NegInf"

definition np_subtract :: "npfloat \<Rightarrow> npfloat \<Rightarrow> npfloat" where
  "np_subtract x y = np_add x (np_negative y)"

fun np_multiply :: "npfloat \<Rightarrow> npfloat \<Rightarrow> npfloat" where
  "np_multiply (Finite x) (Finite y) = Finite (x * y)"
| "np_multiply NaN y = NaN"
| "np_multiply x NaN = NaN"
| "np_multiply (Finite x) PosInf = signed_inf x"
| "np_multiply PosInf (Finite y) = signed_inf y"
| "np_multiply (Finite x) NegInf = signed_inf (- x)"
| "np_multiply NegInf (Finite y) = signed_inf (- y)"
| "np_multiply PosInf PosInf = PosInf"
| "np_multiply NegInf NegInf = PosInf"
| "np_multiply PosInf NegInf = NegInf"
| "np_multiply NegInf PosInf = NegInf"

fun np_divide :: "npfloat \<Rightarrow> npfloat \<Rightarrow> npfloat" where
  "np_divide (Finite x) (Finite y) = true_divide x y"
| "np_divide NaN y = NaN"
| "np_divide x NaN = NaN"
| "np_divide (Finite x) PosInf = Finite 0"
| "np_divide (Finite x) NegInf = Finite 0"
| "np_divide PosInf (Finite y) = (if 0 \<le> y then PosInf else NegInf)"
| "np_divide NegInf (Finite y) = (if 0 \<le> y then NegInf else PosInf)"
| "np_divide x y = NaN"

fun np_abs :: "npfloat \<Rightarrow> npfloat" where
  "np_abs (Finite x) = Finite \<bar>x\<bar>"
| "np_abs PosInf = PosInf"
| "np_abs NegInf = PosInf"
| "np_abs NaN = NaN"

fun np_sqrt :: "npfloat \<Rightarrow> npfloat" where
  "np_sqrt (Finite x) = (if x < 0 then NaN else Finite (sqrt x))"
| "np_sqrt PosInf = PosInf"
| "np_sqrt NegInf = NaN"
| "np_sqrt NaN = NaN"

text \<open>The maximum that \<open>np.max\<close> reduces with; it propagates NaN.\<close>

fun np_maximum :: "npfloat \<Rightarrow> npfloat \<Rightarrow> npfloat" where
  "np_maximum (Finite x) (Finite y) = Finite (max x y)"
| "np_maximum NaN y = NaN"
| "np_maximum x NaN = NaN"
| "np_maximum PosInf y = PosInf"
| "np_maximum x PosInf = PosInf"
| "np_maximum NegInf y = y"
| "np_maximum x NegInf = x"

fun amax_np :: "npfloat list \<Rightarrow> error + npfloat" where
  "amax_np [] = Inl ValueError"
| "amax_np (x # xs) = Inr (fold np_maximum xs x)"

text \<open>A sum along an axis, accumulated from the left.\<close>

definition np_sum :: "npfloat list \<Rightarrow> npfloat" where
  "np_sum xs = fold (\<lambda>x acc. np_add acc x) xs (Finite 0)"

section \<open>The Euler state\<close>

text \<open>
  Modelled from the spec: the schema of the Euler state \<open>Q\<close> (module \<open>state\<close>), which the
  sources at hand use through \<open>Q.fields\<close> only. The state is a fixed-width vector of
  named fields; the docstrings give its width as 9 and the flux rule names the first
  four fields, the conservative sub-range, as \<open>rho, rhoU, rhoV, rhoE\<close>. The remaining
  fields are the internal energy, the two velocity components, the pressure and the
  speed of sound.
\<close>

record Q =
  rho :: real
  rhoU :: real
  rhoV :: real
  rhoE :: real
  rhoe :: real
  U :: real
  V :: real
  p :: real
  c :: real

text \<open>\<open>np.zeros_like\<close>: a state of the same schema with every field zero.\<close>

definition zeros_like :: "Q \<Rightarrow> Q" where
  "zeros_like q = \<lparr>rho = 0, rhoU = 0, rhoV = 0, rhoE = 0, rhoe = 0, U = 0, V = 0, p = 0, c = 0\<rparr>"

text \<open>
  Modelled from the spec: \<open>get_conservative\<close> and \<open>set_conservative\<close> read and write the
  contiguous conservative sub-range, the first four fields. Writing a vector of another
  width into the four slots raises.
\<close>

definition get_conservative :: "Q \<Rightarrow> real list" where
  "get_conservative q = [rho q, rhoU q, rhoV q, rhoE q]"

fun set_conservative :: "Q \<Rightarrow> real list \<Rightarrow> error + Q" where
  "set_conservative q [x0, x1, x2, x3] =
     Inr (q\<lparr>rho := x0, rhoU := x1, rhoV := x2, rhoE := x3\<rparr>)"
| "set_conservative q xs = Inl ValueError"

text \<open>The cell set: the states with the geometry of the faces towards the neighbours.\<close>

record 'v CellSet =
  "values" :: "'v grid"
  normals :: "(real \<times> real) grid"
  surfaces :: "real grid"

section \<open>The Euler problem: flux tensor and eigenvalues\<close>

text \<open>The body of \<open>flux\<close> for one cell: the 4 x 2 tensor, row by row.\<close>

definition flux_cell :: "Q \<Rightarrow> real list list" where
  "flux_cell q =
     (let rhoUU = rhoU q * U q;
          rhoUV = rhoU q * V q;
          rhoVV = rhoV q * V q;
          rhoVU = rhoV q * U q
      in [[rhoU q, rhoV q],
          [rhoUU + p q, rhoUV],
          [rhoVU, rhoVV + p q],
          [(rhoE q + p q) * U q, (rhoE q + p q) * V q]])"

definition flux :: "Q grid \<Rightarrow> real list list grid" where
  "flux state_array = map (map flux_cell) state_array"

text \<open>
  Modelled from the spec: the schema of \<open>EigState\<close>, of which the source uses the two
  fields \<open>UPLUS\<close> and \<open>UMINUS\<close> and allocates exactly two slots per cell.
\<close>

record EigState =
  UPLUS :: real
  UMINUS :: real

text \<open>The body of \<open>eigs\<close> for one cell and its normal.\<close>

definition eigs_cell :: "Q \<Rightarrow> real \<times> real \<Rightarrow> EigState" where
  "eigs_cell q n =
     (let Unorm = U q * fst n + V q * snd n;
          Uplus = Unorm + c q;
          Uminus = Unorm - c q
      in \<lparr>UPLUS = Uplus, UMINUS = Uminus\<rparr>)"

text \<open>
  \<open>eigs\<close> on arrays, statement by statement. \<open>einsum("ijk,ijk->ij", UV, normals)\<close>
  and the two sums with the speed of sound broadcast their operands; the two
  assignments into the \<open>(nx, ny, 2)\<close> result broadcast the assigned array to the mesh
  shape of the state array, and raise where that is not possible.
\<close>

definition eigs :: "Q grid \<Rightarrow> (real \<times> real) grid \<Rightarrow> error + EigState grid" where
  "eigs state_array nrm =
     (case broadcast_grid (\<lambda>q n. U q * fst n + V q * snd n) state_array nrm of
        Inl e \<Rightarrow> Inl e
      | Inr Unorm \<Rightarrow>
          (let cs = map (map c) state_array
           in case broadcast_grid (+) Unorm cs of
                Inl e \<Rightarrow> Inl e
              | Inr Uplus \<Rightarrow>
                  (case broadcast_grid (-) Unorm cs of
                     Inl e \<Rightarrow> Inl e
                   | Inr Uminus \<Rightarrow>
                       (case broadcast_to Uplus state_array of
                          Inl e \<Rightarrow> Inl e
                        | Inr up \<Rightarrow>
                            (case broadcast_to Uminus state_array of
                               Inl e \<Rightarrow> Inl e
                             | Inr um \<Rightarrow>
                                 Inr (map2 (map2 (\<lambda>a b. \<lparr>UPLUS = a, UMINUS = b\<rparr>)) up um))))))"

section \<open>The Rusanov scheme\<close>

text \<open>
  \<open>compute_sigma\<close> for one cell: the arrays \<open>sigma_L\<close> and \<open>sigma_R\<close> have a trailing axis
  of length one, their concatenation has length two, and the maximum is taken over it.
\<close>

definition compute_sigma_cell :: "real \<Rightarrow> real \<Rightarrow> real \<Rightarrow> real \<Rightarrow> error + real" where
  "compute_sigma_cell U_L U_R c_L c_R =
     (let sigma_L = \<bar>U_L\<bar> + c_L;
          sigma_R = \<bar>U_R\<bar> + c_R;
          sigma_array = [sigma_L] @ [sigma_R]
      in amax sigma_array)"

text \<open>
  \<open>compute_sigma\<close> on arrays. The velocities come with their trailing axis of length
  one, which the model drops. The two sums broadcast; \<open>np.concatenate\<close> does not, it
  raises unless \<open>sigma_L\<close> and \<open>sigma_R\<close> agree on the mesh axes.
\<close>

definition compute_sigma ::
  "real grid \<Rightarrow> real grid \<Rightarrow> real grid \<Rightarrow> real grid \<Rightarrow> error + real grid" where
  "compute_sigma U_L U_R c_L c_R =
     (case broadcast_grid (\<lambda>u cc. \<bar>u\<bar> + cc) U_L c_L of
        Inl e \<Rightarrow> Inl e
      | Inr sigma_L \<Rightarrow>
          (case broadcast_grid (\<lambda>u cc. \<bar>u\<bar> + cc) U_R c_R of
             Inl e \<Rightarrow> Inl e
           | Inr sigma_R \<Rightarrow>
               if same_shape sigma_L sigma_R
               then collect_grid (map2 (map2 (\<lambda>l r. amax ([l] @ [r]))) sigma_L sigma_R)
               else Inl ValueError))"

text \<open>
  Modelled from the spec: \<open>compute_U_norm\<close> of the parent scheme class, the projection of
  the velocity onto the face normal, \<open>U_n = velocity \<cdot> normal\<close>.
\<close>

definition compute_U_norm :: "Q \<Rightarrow> real \<times> real \<Rightarrow> real" where
  "compute_U_norm q n = U q * fst n + V q * snd n"

text \<open>\<open>einsum("...kl,...l->...k", T, n)\<close>: each row of the tensor dotted with the normal.\<close>

definition einsum_kl_l :: "real list list \<Rightarrow> real \<times> real \<Rightarrow> real list" where
  "einsum_kl_l T n = map (\<lambda>row. sum_list (map2 (*) row [fst n, snd n])) T"

text \<open>
  The body of \<open>Rusanov.F\<close> at one face: \<open>Q_L\<close> is the state of the cell, \<open>Q_R\<close> the
  state of its neighbour. \<open>self.problem.F\<close> is the Euler flux above.
\<close>

definition F_face :: "Q \<Rightarrow> Q \<Rightarrow> real \<times> real \<Rightarrow> real \<Rightarrow> error + Q" where
  "F_face Q_L Q_R normal surface =
     (let FS = zeros_like Q_L;
          U_L = compute_U_norm Q_L normal;
          U_R = compute_U_norm Q_R normal;
          c_L = c Q_L;
          c_R = c Q_R
      in case compute_sigma_cell U_L U_R c_L c_R of
           Inl e \<Rightarrow> Inl e
         | Inr sigma \<Rightarrow>
             (let DeltaF = map2 (map2 (\<lambda>a b. 0.5 * (a + b))) (flux_cell Q_L) (flux_cell Q_R);
                  DeltaFn = einsum_kl_l DeltaF normal;
                  Q_L_cons = get_conservative Q_L;
                  Q_R_cons = get_conservative Q_R;
                  DeltaQ = map (\<lambda>d. 0.5 * sigma * d) (map2 (-) Q_R_cons Q_L_cons)
              in set_conservative FS (map (\<lambda>x. surface * x) (map2 (-) DeltaFn DeltaQ))))"

text \<open>
  \<open>Rusanov.F\<close> on arrays, statement by statement. Every binary operation broadcasts
  its operands; \<open>compute_U_norm\<close> is taken to do the same with the states and the
  normals. \<open>set_conservative\<close> assigns into the zero array of the shape of \<open>Q_L\<close>.
\<close>

definition Rusanov_F :: "Q CellSet \<Rightarrow> Q CellSet \<Rightarrow> error + Q grid" where
  "Rusanov_F cells neighs =
     (let Q_L = values cells;
          Q_R = values neighs;
          FS = map (map zeros_like) Q_L
      in seq (broadcast_grid compute_U_norm Q_L (normals neighs)) (\<lambda>U_L.
         seq (broadcast_grid compute_U_norm Q_R (normals neighs)) (\<lambda>U_R.
         seq (compute_sigma U_L U_R (map (map c) Q_L) (map (map c) Q_R)) (\<lambda>sigma.
         seq (broadcast_grid (map2 (map2 (\<lambda>a b. 0.5 * (a + b)))) (flux Q_L) (flux Q_R)) (\<lambda>DeltaF.
         seq (broadcast_grid einsum_kl_l DeltaF (normals neighs)) (\<lambda>DeltaFn.
         seq (broadcast_grid (map2 (-)) (map (map get_conservative) Q_R)
                (map (map get_conservative) Q_L)) (\<lambda>Qdiff.
         seq (broadcast_grid (\<lambda>sg. map (\<lambda>d. 0.5 * sg * d)) sigma Qdiff) (\<lambda>DeltaQ.
         seq (broadcast_grid (map2 (-)) DeltaFn DeltaQ) (\<lambda>D.
         seq (broadcast_grid (\<lambda>sf. map (\<lambda>x. sf * x)) (surfaces neighs) D) (\<lambda>W.
         seq (broadcast_to W FS) (\<lambda>W'.
           collect_grid (map2 (map2 set_conservative) FS W'))))))))))))"

text \<open>The unary minus of NumPy on a state and on a normal.\<close>

definition neg_state :: "Q \<Rightarrow> Q" where
  "neg_state q =
     \<lparr>rho = - rho q, rhoU = - rhoU q, rhoV = - rhoV q, rhoE = - rhoE q, rhoe = - rhoe q,
      U = - U q, V = - V q, p = - p q, c = - c q\<rparr>"

definition neg_normal :: "real \<times> real \<Rightarrow> real \<times> real" where
  "neg_normal n = (- fst n, - snd n)"

text \<open>
  The wave-speed bound at a face in the words of the spec,
  \<open>\<sigma> = max(|U_n,L| + c_L, |U_n,R| + c_R)\<close>, to compare the code with.
\<close>

definition sigma_face :: "Q \<Rightarrow> Q \<Rightarrow> real \<times> real \<Rightarrow> real" where
  "sigma_face ql qr n = max (\<bar>compute_U_norm ql n\<bar> + c ql) (\<bar>compute_U_norm qr n\<bar> + c qr)"

subsection \<open>The face flux in the extended numbers\<close>

text \<open>
  The same statements of \<open>compute_sigma\<close> and \<open>Rusanov.F\<close>, for finite input states,
  with every arithmetic operation of the source taken in \<open>npfloat\<close>. \<open>F_face_np\<close>
  returns the array that \<open>F\<close> hands to \<open>set_conservative\<close>.
\<close>

definition flux_cell_np :: "Q \<Rightarrow> npfloat list list" where
  "flux_cell_np q =
     (let rhoUU = np_multiply (Finite (rhoU q)) (Finite (U q));
          rhoUV = np_multiply (Finite (rhoU q)) (Finite (V q));
          rhoVV = np_multiply (Finite (rhoV q)) (Finite (V q));
          rhoVU = np_multiply (Finite (rhoV q)) (Finite (U q))
      in [[Finite (rhoU q), Finite (rhoV q)],
          [np_add rhoUU (Finite (p q)), rhoUV],
          [rhoVU, np_add rhoVV (Finite (p q))],
          [np_multiply (np_add (Finite (rhoE q)) (Finite (p q))) (Finite (U q)),
           np_multiply (np_add (Finite (rhoE q)) (Finite (p q))) (Finite (V q))]])"

definition compute_sigma_cell_np ::
  "npfloat \<Rightarrow> npfloat \<Rightarrow> npfloat \<Rightarrow> npfloat \<Rightarrow> error + npfloat" where
  "compute_sigma_cell_np U_L U_R c_L c_R =
     (let sigma_L = np_add (np_abs U_L) c_L;
          sigma_R = np_add (np_abs U_R) c_R;
          sigma_array = [sigma_L] @ [sigma_R]
      in amax_np sigma_array)"

definition compute_U_norm_np :: "Q \<Rightarrow> real \<times> real \<Rightarrow> npfloat" where
  "compute_U_norm_np q n =
     np_sum [np_multiply (Finite (U q)) (Finite (fst n)), np_multiply (Finite (V q)) (Finite (snd n))]"

definition einsum_kl_l_np :: "npfloat list list \<Rightarrow> real \<times> real \<Rightarrow> npfloat list" where
  "einsum_kl_l_np T n =
     map (\<lambda>row. np_sum (map2 np_multiply row [Finite (fst n), Finite (snd n)])) T"

definition F_face_np :: "Q \<Rightarrow> Q \<Rightarrow> real \<times> real \<Rightarrow> real \<Rightarrow> error + npfloat list" where
  "F_face_np Q_L Q_R normal surface =
     (let U_L = compute_U_norm_np Q_L normal;
          U_R = compute_U_norm_np Q_R normal;
          c_L = Finite (c Q_L);
          c_R = Finite (c Q_R)
      in case compute_sigma_cell_np U_L U_R c_L c_R of
           Inl e \<Rightarrow> Inl e
         | Inr sigma \<Rightarrow>
             (let DeltaF = map2 (map2 (\<lambda>a b. np_multiply (Finite 0.5) (np_add a b)))
                             (flux_cell_np Q_L) (flux_cell_np Q_R);
                  DeltaFn = einsum_kl_l_np DeltaF normal;
                  Q_L_cons = map Finite (get_conservative Q_L);
                  Q_R_cons = map Finite (get_conservative Q_R);
                  DeltaQ = map (\<lambda>d. np_multiply (np_multiply (Finite 0.5) sigma) d)
                             (map2 np_subtract Q_R_cons Q_L_cons)
              in Inr (map (\<lambda>x. np_multiply (Finite surface) x)
                          (map2 np_subtract DeltaFn DeltaQ))))"

section \<open>The advection scheme: time step\<close>

text \<open>The module constant \<open>V\<close>, the advection velocity in the x direction.\<close>

definition V_adv :: "real list" where
  "V_adv = [1, 0]"

text \<open>\<open>np.linalg.norm\<close> of a vector and \<open>np.min\<close> over all entries of an array.\<close>

definition linalg_norm :: "real list \<Rightarrow> real" where
  "linalg_norm v = sqrt (sum_list (map (\<lambda>x. \<bar>x\<bar>\<^sup>2) v))"

fun amin :: "real list \<Rightarrow> error + real" where
  "amin [] = Inl ValueError"
| "amin (x # xs) = Inr (fold min xs x)"

text \<open>
  \<open>Upwind.CFL\<close>. The method reads the module constant \<open>V\<close> when it is called; the model
  takes it as its first argument, and \<open>CFL V_adv\<close> is the method as the test module
  defines it.
\<close>

definition CFL :: "real list \<Rightarrow> 'v CellSet \<Rightarrow> real \<Rightarrow> error + npfloat" where
  "CFL Vel cells CFL_value =
     (let U_abs = linalg_norm Vel
      in case amin (concat (surfaces cells)) of
           Inl e \<Rightarrow> Inl e
         | Inr dx \<Rightarrow> Inr (true_divide (CFL_value * dx) U_abs))"

text \<open>
  The same method for a velocity whose components may be infinite or NaN; the surfaces
  and the CFL number stay finite. \<open>np.linalg.norm\<close> of a vector is the square root of
  its dot product with itself.
\<close>

definition linalg_norm_np :: "npfloat list \<Rightarrow> npfloat" where
  "linalg_norm_np v = np_sqrt (np_sum (map (\<lambda>x. np_multiply x x) v))"

definition CFL_np :: "npfloat list \<Rightarrow> 'v CellSet \<Rightarrow> real \<Rightarrow> error + npfloat" where
  "CFL_np Vel cells CFL_value =
     (let U_abs = linalg_norm_np Vel
      in case amin (concat (surfaces cells)) of
           Inl e \<Rightarrow> Inl e
         | Inr dx \<Rightarrow> Inr (np_divide (np_multiply (Finite CFL_value) (Finite dx)) U_abs))"

section \<open>The Runge-Kutta stage evaluation\<close>

text \<open>
  Modelled from the spec: the Butcher tableau (class \<open>ButcherTableau\<close> of the time
  schemes), an immutable triple of coefficient arrays. \<open>RKDG.k\<close> reads \<open>c_s\<close> by index
  and \<open>a_s\<close> as a flat array by a slice.
\<close>

record ButcherTableau =
  a_s :: "real list"
  b_s :: "real list"
  c_s :: "real list"

text \<open>
  The part of the scheme object that \<open>k\<close> reads and writes: the slots \<open>_ks\<close> along the
  last axis and the array \<open>_fluxes\<close>. An array of the shape of the cell values is an
  element of a real vector space \<open>'v\<close>. The field \<open>trace\<close> is no attribute of the object:
  it records every residual evaluation as the stage, the trial values it started from
  and the residual it produced.
\<close>

record 'v RKDG =
  ks :: "'v list"
  fluxes :: "'v"
  trace :: "(nat \<times> 'v \<times> 'v) list"

text \<open>The slice \<open>xs[i:j]\<close> for \<open>0 \<le> i \<le> j\<close>; Python clamps it to the array.\<close>

definition slice :: "'a list \<Rightarrow> nat \<Rightarrow> nat \<Rightarrow> 'a list" where
  "slice xs i j = take (j - i) (drop i xs)"

text \<open>
  \<open>einsum("...i,...j->...", a, K)\<close>: both the index \<open>i\<close> of the coefficients and the
  index \<open>j\<close> of the slots are summed over, independently of each other.
\<close>

definition einsum_i_j :: "real list \<Rightarrow> ('v::real_vector) list \<Rightarrow> 'v" where
  "einsum_i_j coeffs Ks = sum_list (map (\<lambda>a. sum_list (map (\<lambda>K. a *\<^sub>R K) Ks)) coeffs)"

text \<open>The values of \<open>step_cells\<close> after the update by the cached residuals.\<close>

definition trial_values ::
  "ButcherTableau \<Rightarrow> ('v::real_vector) \<Rightarrow> real \<Rightarrow> nat \<Rightarrow> 'v list \<Rightarrow> 'v" where
  "trial_values butcher cell_values dt step slots =
     (let coeffs = slice (a_s butcher) step (2 * step + 1)
      in cell_values - dt *\<^sub>R einsum_i_j coeffs (take step slots))"

text \<open>
  The part of \<open>k\<close> after the recursive call. What follows the update of the cell
  values (limiter, ghost cells, accumulation over the neighbours, the volume term and
  the solve with the mass matrix) is the parameter \<open>residual\<close>: it maps the trial
  values, the stage time and the incoming \<open>_fluxes\<close> to the new \<open>_fluxes\<close>.
\<close>

definition stage ::
  "(('v::real_vector) \<Rightarrow> real \<Rightarrow> 'v \<Rightarrow> 'v) \<Rightarrow> ButcherTableau \<Rightarrow> 'v \<Rightarrow> real \<Rightarrow> real \<Rightarrow> nat
     \<Rightarrow> 'v RKDG \<Rightarrow> error + 'v RKDG" where
  "stage residual butcher cell_values dt t step self =
     (if step < length (c_s butcher)
      then (let cc = c_s butcher ! step;
                t' = t + cc * dt;
                step_values = trial_values butcher cell_values dt step (ks self);
                fl = residual step_values t' (fluxes self)
            in Inr (self\<lparr>fluxes := fl, trace := trace self @ [(step, step_values, fl)]\<rparr>))
      else Inl IndexError)"

text \<open>\<open>RKDG.k\<close>: the recursion over the stages, from \<open>step\<close> down to 0.\<close>

fun RKDG_k ::
  "(('v::real_vector) \<Rightarrow> real \<Rightarrow> 'v \<Rightarrow> 'v) \<Rightarrow> ButcherTableau \<Rightarrow> 'v \<Rightarrow> real \<Rightarrow> real \<Rightarrow> nat
     \<Rightarrow> 'v RKDG \<Rightarrow> error + 'v RKDG" where
  "RKDG_k residual butcher cell_values dt t 0 self =
     stage residual butcher cell_values dt t 0 self"
| "RKDG_k residual butcher cell_values dt t (Suc n) self =
     (case RKDG_k residual butcher cell_values dt t n self of
        Inl e \<Rightarrow> Inl e
      | Inr self' \<Rightarrow>
          if n < length (ks self')
          then stage residual butcher cell_values dt t (Suc n)
                 (self'\<lparr>ks := (ks self')[n := fluxes self'], fluxes := 0\<rparr>)
          else Inl IndexError)"

section \<open>Auxiliary facts\<close>

lemma collect_eq_Inr: "collect xs = Inr ys \<longleftrightarrow> xs = map Inr ys"
proof (induction xs arbitrary: ys)
  case Nil
  then show ?case by auto
next
  case (Cons x xs)
  show ?case
  proof (cases x)
    case (Inl e)
    then show ?thesis by (cases ys) auto
  next
    case (Inr v)
    show ?thesis
    proof (cases "collect xs")
      case (Inl e)
      with Inr Cons.IH show ?thesis by (cases ys) auto
    next
      case r: (Inr vs)
      with Inr Cons.IH show ?thesis by (cases ys) auto
    qed
  qed
qed

lemma compute_sigma_cell_max:
  "compute_sigma_cell u_l u_r c_l c_r = Inr (max (\<bar>u_l\<bar> + c_l) (\<bar>u_r\<bar> + c_r))"
  by (simp add: compute_sigma_cell_def max.commute)

lemma F_face_explicit:
  "F_face ql qr n s =
     Inr ((zeros_like ql)\<lparr>
       rho := s * ((0.5 * (rhoU ql + rhoU qr) * fst n + 0.5 * (rhoV ql + rhoV qr) * snd n)
                   - 0.5 * sigma_face ql qr n * (rho qr - rho ql)),
       rhoU := s * ((0.5 * (rhoU ql * U ql + p ql + (rhoU qr * U qr + p qr)) * fst n
                     + 0.5 * (rhoU ql * V ql + rhoU qr * V qr) * snd n)
                   - 0.5 * sigma_face ql qr n * (rhoU qr - rhoU ql)),
       rhoV := s * ((0.5 * (rhoV ql * U ql + rhoV qr * U qr) * fst n
                     + 0.5 * (rhoV ql * V ql + p ql + (rhoV qr * V qr + p qr)) * snd n)
                   - 0.5 * sigma_face ql qr n * (rhoV qr - rhoV ql)),
       rhoE := s * ((0.5 * ((rhoE ql + p ql) * U ql + (rhoE qr + p qr) * U qr) * fst n
                     + 0.5 * ((rhoE ql + p ql) * V ql + (rhoE qr + p qr) * V qr) * snd n)
                   - 0.5 * sigma_face ql qr n * (rhoE qr - rhoE ql))\<rparr>)"
  by (simp add: F_face_def compute_sigma_cell_max sigma_face_def flux_cell_def Let_def
      einsum_kl_l_def get_conservative_def)

lemma collect_map_Inr:
  assumes "\<And>x. x \<in> set xs \<Longrightarrow> f x = Inr (g x)"
  shows "collect (map f xs) = Inr (map g xs)"
proof -
  have "map f xs = map Inr (map g xs)" using assms by simp
  then show ?thesis by (simp only: collect_eq_Inr)
qed

lemma same_shape_length: "same_shape A B \<Longrightarrow> length A = length B"
  unfolding same_shape_def by (metis length_map)

lemma same_shape_nth: "same_shape A B \<Longrightarrow> i < length A \<Longrightarrow> length (A ! i) = length (B ! i)"
  unfolding same_shape_def by (metis length_map nth_map)

lemma F_face_total: "F_face ql qr n s = Inr (projr (F_face ql qr n s))"
  by (simp add: F_face_explicit)

lemma sigma_face_swap: "sigma_face qr ql (neg_normal n) = sigma_face ql qr n"
  by (simp add: sigma_face_def compute_U_norm_def neg_normal_def max.commute
      abs_minus_commute [of "- (U ql * fst n)" "V ql * snd n"]
      abs_minus_commute [of "- (U qr * fst n)" "V qr * snd n"])

lemma grid_is_same_shape: "grid_is G A g \<Longrightarrow> same_shape G A"
  unfolding grid_is_def same_shape_def by (auto intro: nth_equalityI)

lemma grid_is_self: "same_shape A B \<Longrightarrow> grid_is A B (\<lambda>i j. A ! i ! j)"
  unfolding grid_is_def
  by (metis same_shape_length same_shape_nth)

lemma grid_is_refl: "grid_is A A (\<lambda>i j. A ! i ! j)"
  unfolding grid_is_def by simp

lemma grid_is_map: "grid_is X A x \<Longrightarrow> grid_is (map (map f) X) A (\<lambda>i j. f (x i j))"
  unfolding grid_is_def by simp

lemma grid_is_map2:
  assumes "grid_is X A x" and "grid_is Y A y"
  shows "grid_is (map2 (map2 f) X Y) A (\<lambda>i j. f (x i j) (y i j))"
  using assms unfolding grid_is_def by simp

lemma grid_is_nth:
  "grid_is G A g \<Longrightarrow> i < length A \<Longrightarrow> j < length (A ! i) \<Longrightarrow> G ! i ! j = g i j"
  unfolding grid_is_def by simp

lemma broadcast_axis_same: "length xs = length ys \<Longrightarrow> broadcast_axis xs ys = Inr (zip xs ys)"
  by (simp add: broadcast_axis_def)

lemma assign_axis_same: "length xs = n \<Longrightarrow> assign_axis xs n = Inr xs"
  by (simp add: assign_axis_def)

lemma broadcast_grid_is:
  assumes X: "grid_is X A x" and Y: "grid_is Y A y"
  shows "\<exists>Z. broadcast_grid f X Y = Inr Z \<and> grid_is Z A (\<lambda>i j. f (x i j) (y i j))"
proof -
  have len: "length X = length A" "length Y = length A"
    using X Y by (simp_all add: grid_is_def)
  have rows: "length ra = length rb" if "(ra, rb) \<in> set (zip X Y)" for ra rb
  proof -
    from that obtain i where "i < length A" "ra = X ! i" "rb = Y ! i"
      using len by (auto simp: in_set_zip)
    then show ?thesis using X Y by (simp add: grid_is_def)
  qed
  have "collect (map (\<lambda>(ra, rb). case broadcast_axis ra rb of
                                      Inl e \<Rightarrow> Inl e
                                    | Inr cs \<Rightarrow> Inr (map (\<lambda>(a, b). f a b) cs))
                       (zip X Y)) = Inr (map (\<lambda>(ra, rb). map2 f ra rb) (zip X Y))"
    by (rule collect_map_Inr) (auto simp: broadcast_axis_same dest: rows)
  then have "broadcast_grid f X Y = Inr (map2 (map2 f) X Y)"
    using len by (simp add: broadcast_grid_def broadcast_axis_same)
  with grid_is_map2 [OF X Y] show ?thesis by blast
qed

lemma broadcast_to_is:
  assumes X: "grid_is X A x" and T: "grid_is T A t"
  shows "broadcast_to X T = Inr X"
proof -
  have len: "length X = length A" "length T = length A"
    using X T by (simp_all add: grid_is_def)
  have rows: "length r = length tr" if "(r, tr) \<in> set (zip X T)" for r tr
  proof -
    from that obtain i where "i < length A" "r = X ! i" "tr = T ! i"
      using len by (auto simp: in_set_zip)
    then show ?thesis using X T by (simp add: grid_is_def)
  qed
  have "collect (map (\<lambda>(r, tr). assign_axis r (length tr)) (zip X T)) = Inr (map fst (zip X T))"
    by (rule collect_map_Inr) (auto simp: assign_axis_same dest: rows)
  then show ?thesis
    using len by (simp add: broadcast_to_def assign_axis_same)
qed

lemma collect_grid_is:
  assumes X: "grid_is X A x"
    and ok: "\<And>i j. i < length A \<Longrightarrow> j < length (A ! i) \<Longrightarrow> x i j = Inr (g i j)"
  shows "\<exists>G. collect_grid X = Inr G \<and> grid_is G A g"
proof -
  have len: "length X = length A" using X by (simp add: grid_is_def)
  have row: "collect r = Inr (map projr r)" if "r \<in> set X" for r
  proof -
    from that obtain i where i: "i < length A" "r = X ! i"
      using len by (auto simp: in_set_conv_nth)
    have "r = map Inr (map projr r)"
    proof (rule nth_equalityI)
      show "length r = length (map Inr (map projr r))" by simp
    next
      fix j assume "j < length r"
      then have "j < length (A ! i)" using X i by (simp add: grid_is_def)
      then have "r ! j = Inr (g i j)" using X i ok by (simp add: grid_is_def)
      then show "r ! j = map Inr (map projr r) ! j" using \<open>j < length r\<close> by simp
    qed
    then show ?thesis by (simp only: collect_eq_Inr)
  qed
  have "collect (map collect X) = Inr (map (map projr) X)"
    by (rule collect_map_Inr) (rule row)
  moreover have "grid_is (map (map projr) X) A g"
    using X ok unfolding grid_is_def by simp
  ultimately show ?thesis by (auto simp: collect_grid_def)
qed

lemma amin_Min: "xs \<noteq> [] \<Longrightarrow> amin xs = Inr (Min (set xs))"
  by (cases xs) (simp_all add: Min.set_eq_fold del: set_simps)

lemma linalg_norm_double: "linalg_norm (map (\<lambda>x. 2 * x) v) = 2 * linalg_norm v"
proof -
  have "sum_list (map (\<lambda>x. \<bar>2 * x\<bar>\<^sup>2) v) = 4 * sum_list (map (\<lambda>x. \<bar>x\<bar>\<^sup>2) v)"
    by (induction v) (simp_all add: power_mult_distrib abs_mult algebra_simps)
  then show ?thesis
    by (simp add: linalg_norm_def comp_def real_sqrt_mult)
qed

lemma linalg_norm_V_adv: "linalg_norm V_adv = 1"
  by (simp add: linalg_norm_def V_adv_def)

lemma CFL_nonempty:
  "concat (surfaces cells) \<noteq> [] \<Longrightarrow>
     CFL Vel cells cfl =
       Inr (true_divide (cfl * Min (set (concat (surfaces cells)))) (linalg_norm Vel))"
  by (simp add: CFL_def amin_Min)

lemma CFL_empty:
  assumes "concat (surfaces cells) = []"
  shows "CFL Vel cells cfl = Inl ValueError"
proof -
  have "amin (concat (surfaces cells)) = Inl ValueError"
    unfolding assms by simp
  then show ?thesis unfolding CFL_def Let_def by (simp only: sum.case)
qed

lemma einsum_i_j_product:
  "einsum_i_j coeffs Ks = sum_list coeffs *\<^sub>R sum_list Ks"
proof -
  have inner: "sum_list (map (\<lambda>K. a *\<^sub>R K) Ks) = a *\<^sub>R sum_list Ks" for a :: real
    by (induction Ks) (simp_all add: scaleR_right_distrib)
  show ?thesis
    unfolding einsum_i_j_def inner
    by (induction coeffs) (simp_all add: scaleR_left_distrib)
qed

lemma trial_values_uniform:
  "trial_values butcher cell_values dt step slots =
     cell_values - dt *\<^sub>R (sum_list (slice (a_s butcher) step (2 * step + 1))
                               *\<^sub>R sum_list (take step slots))"
  by (simp add: trial_values_def einsum_i_j_product)

lemma stage_Inr:
  assumes "stage residual butcher cell_values dt t step self = Inr self'"
  shows "ks self' = ks self"
    and "trace self' =
           trace self @ [(step, trial_values butcher cell_values dt step (ks self), fluxes self')]"
    and "fluxes self' =
           residual (trial_values butcher cell_values dt step (ks self))
             (t + c_s butcher ! step * dt) (fluxes self)"
    and "step < length (c_s butcher)"
  using assms by (auto simp: stage_def Let_def split: if_splits)

lemma RKDG_k_once:
  "RKDG_k residual butcher cell_values dt t s self = Inr self' \<Longrightarrow>
     map fst (trace self') = map fst (trace self) @ [0..<Suc s]
     \<and> length (ks self') = length (ks self)"
proof (induction s arbitrary: self')
  case 0
  then show ?case by (auto dest: stage_Inr)
next
  case (Suc n)
  from Suc.prems obtain mid where mid: "RKDG_k residual butcher cell_values dt t n self = Inr mid"
    and n: "n < length (ks mid)"
    and st: "stage residual butcher cell_values dt t (Suc n)
               (mid\<lparr>ks := (ks mid)[n := fluxes mid], fluxes := 0\<rparr>) = Inr self'"
    by (auto split: sum.splits if_splits)
  from Suc.IH [OF mid] stage_Inr(1,2) [OF st] show ?case by simp
qed

lemma RKDG_k_returns:
  "s < length (c_s butcher) \<Longrightarrow> s \<le> length (ks self) \<Longrightarrow>
     \<exists>self'. RKDG_k residual butcher cell_values dt t s self = Inr self'"
proof (induction s)
  case 0
  then show ?case by (simp add: stage_def Let_def)
next
  case (Suc n)
  then obtain mid where mid: "RKDG_k residual butcher cell_values dt t n self = Inr mid"
    by auto
  then have "length (ks mid) = length (ks self)" by (simp add: RKDG_k_once)
  with Suc.prems mid show ?case by (simp add: stage_def Let_def)
qed

lemma seq_Inr: "r = Inr v \<Longrightarrow> seq r f = f v"
  by (simp add: seq_def)

lemma compute_sigma_is:
  assumes UL: "grid_is U_L A ul" and UR: "grid_is U_R A ur"
    and CL: "grid_is c_L A cl" and CR: "grid_is c_R A cr"
  shows "\<exists>S. compute_sigma U_L U_R c_L c_R = Inr S
    \<and> grid_is S A (\<lambda>i j. max (\<bar>ul i j\<bar> + cl i j) (\<bar>ur i j\<bar> + cr i j))"
proof -
  obtain sigma_L where L: "broadcast_grid (\<lambda>u cc. \<bar>u\<bar> + cc) U_L c_L = Inr sigma_L"
    "grid_is sigma_L A (\<lambda>i j. \<bar>ul i j\<bar> + cl i j)"
    using broadcast_grid_is [OF UL CL] by blast
  obtain sigma_R where R: "broadcast_grid (\<lambda>u cc. \<bar>u\<bar> + cc) U_R c_R = Inr sigma_R"
    "grid_is sigma_R A (\<lambda>i j. \<bar>ur i j\<bar> + cr i j)"
    using broadcast_grid_is [OF UR CR] by blast
  have sh: "same_shape sigma_L sigma_R"
    using grid_is_same_shape [OF L(2)] grid_is_same_shape [OF R(2)]
    by (simp add: same_shape_def)
  have "\<exists>S. collect_grid (map2 (map2 (\<lambda>l r. amax ([l] @ [r]))) sigma_L sigma_R) = Inr S
    \<and> grid_is S A (\<lambda>i j. max (\<bar>ul i j\<bar> + cl i j) (\<bar>ur i j\<bar> + cr i j))"
    by (rule collect_grid_is [OF grid_is_map2 [OF L(2) R(2)]]) (simp add: max.commute)
  then show ?thesis
    using L(1) R(1) sh by (simp add: compute_sigma_def)
qed

lemma compute_sigma_grid:
  assumes "same_shape U_L c_L" and "same_shape U_R c_R" and "same_shape U_L U_R"
  shows "\<exists>sigma. compute_sigma U_L U_R c_L c_R = Inr sigma \<and> length sigma = length U_L
    \<and> (\<forall>i<length U_L. length (sigma ! i) = length (U_L ! i)
        \<and> (\<forall>j<length (U_L ! i).
             sigma ! i ! j = max (\<bar>U_L ! i ! j\<bar> + c_L ! i ! j) (\<bar>U_R ! i ! j\<bar> + c_R ! i ! j)))"
proof -
  have s1: "same_shape c_L U_L" and s2: "same_shape U_R U_L" and s3: "same_shape c_R U_L"
    using assms by (simp_all add: same_shape_def)
  from compute_sigma_is [OF grid_is_refl grid_is_self [OF s2] grid_is_self [OF s1] grid_is_self [OF s3]]
  show ?thesis unfolding grid_is_def by blast
qed

lemma eigs_is:
  assumes S: "grid_is state_array A st" and N: "grid_is nrm A nr"
  shows "\<exists>E. eigs state_array nrm = Inr E \<and> grid_is E A (\<lambda>i j. eigs_cell (st i j) (nr i j))"
proof -
  let ?un = "\<lambda>i j. U (st i j) * fst (nr i j) + V (st i j) * snd (nr i j)"
  obtain Unorm where Un: "broadcast_grid (\<lambda>q n. U q * fst n + V q * snd n) state_array nrm = Inr Unorm"
    "grid_is Unorm A ?un"
    using broadcast_grid_is [OF S N] by blast
  have C: "grid_is (map (map c) state_array) A (\<lambda>i j. c (st i j))"
    by (rule grid_is_map [OF S])
  obtain Uplus where Up: "broadcast_grid (+) Unorm (map (map c) state_array) = Inr Uplus"
    "grid_is Uplus A (\<lambda>i j. ?un i j + c (st i j))"
    using broadcast_grid_is [OF Un(2) C] by blast
  obtain Uminus where Um: "broadcast_grid (-) Unorm (map (map c) state_array) = Inr Uminus"
    "grid_is Uminus A (\<lambda>i j. ?un i j - c (st i j))"
    using broadcast_grid_is [OF Un(2) C] by blast
  have bp: "broadcast_to Uplus state_array = Inr Uplus"
    by (rule broadcast_to_is [OF Up(2) S])
  have bm: "broadcast_to Uminus state_array = Inr Uminus"
    by (rule broadcast_to_is [OF Um(2) S])
  have "eigs state_array nrm = Inr (map2 (map2 (\<lambda>a b. \<lparr>UPLUS = a, UMINUS = b\<rparr>)) Uplus Uminus)"
    by (simp add: eigs_def Un(1) Up(1) Um(1) bp bm)
  moreover have "grid_is (map2 (map2 (\<lambda>a b. \<lparr>UPLUS = a, UMINUS = b\<rparr>)) Uplus Uminus) A
      (\<lambda>i j. eigs_cell (st i j) (nr i j))"
    using grid_is_map2 [OF Up(2) Um(2), of "\<lambda>a b. \<lparr>UPLUS = a, UMINUS = b\<rparr>"]
    by (simp add: eigs_cell_def Let_def)
  ultimately show ?thesis by blast
qed

lemma eigs_grid:
  assumes "same_shape A N"
  shows "\<exists>E. eigs A N = Inr E \<and> length E = length A
    \<and> (\<forall>i<length A. length (E ! i) = length (A ! i)
        \<and> (\<forall>j<length (A ! i). E ! i ! j = eigs_cell (A ! i ! j) (N ! i ! j)))"
proof -
  have "same_shape N A" using assms by (simp add: same_shape_def)
  from eigs_is [OF grid_is_refl grid_is_self [OF this]]
  show ?thesis unfolding grid_is_def by blast
qed

lemma F_face_unfold:
  "F_face ql qr n s =
     set_conservative (zeros_like ql)
       (map (\<lambda>x. s * x)
          (map2 (-)
             (einsum_kl_l (map2 (map2 (\<lambda>a b. 0.5 * (a + b))) (flux_cell ql) (flux_cell qr)) n)
             (map (\<lambda>d. 0.5 * max (\<bar>compute_U_norm ql n\<bar> + c ql) (\<bar>compute_U_norm qr n\<bar> + c qr) * d)
                (map2 (-) (get_conservative qr) (get_conservative ql)))))"
  by (simp only: F_face_def compute_sigma_cell_max Let_def sum.case)

lemma Rusanov_F_is:
  assumes L: "grid_is (values cells) A l" and R: "grid_is (values neighs) A r"
    and N: "grid_is (normals neighs) A n" and S: "grid_is (surfaces neighs) A s"
  shows "\<exists>G. Rusanov_F cells neighs = Inr G
    \<and> grid_is G A (\<lambda>i j. projr (F_face (l i j) (r i j) (n i j) (s i j)))"
proof -
  let ?QL = "values cells" and ?QR = "values neighs"
  let ?sg = "\<lambda>i j. max (\<bar>compute_U_norm (l i j) (n i j)\<bar> + c (l i j))
                        (\<bar>compute_U_norm (r i j) (n i j)\<bar> + c (r i j))"
  obtain U_L where UL: "broadcast_grid compute_U_norm ?QL (normals neighs) = Inr U_L"
    "grid_is U_L A (\<lambda>i j. compute_U_norm (l i j) (n i j))"
    using broadcast_grid_is [OF L N] by blast
  obtain U_R where UR: "broadcast_grid compute_U_norm ?QR (normals neighs) = Inr U_R"
    "grid_is U_R A (\<lambda>i j. compute_U_norm (r i j) (n i j))"
    using broadcast_grid_is [OF R N] by blast
  obtain sigma where SG: "compute_sigma U_L U_R (map (map c) ?QL) (map (map c) ?QR) = Inr sigma"
    "grid_is sigma A ?sg"
    using compute_sigma_is [OF UL(2) UR(2) grid_is_map [OF L] grid_is_map [OF R]] by blast
  have FL: "grid_is (flux ?QL) A (\<lambda>i j. flux_cell (l i j))"
    unfolding flux_def by (rule grid_is_map [OF L])
  have FR: "grid_is (flux ?QR) A (\<lambda>i j. flux_cell (r i j))"
    unfolding flux_def by (rule grid_is_map [OF R])
  obtain DeltaF where DF:
    "broadcast_grid (map2 (map2 (\<lambda>a b. 0.5 * (a + b)))) (flux ?QL) (flux ?QR) = Inr DeltaF"
    "grid_is DeltaF A (\<lambda>i j. map2 (map2 (\<lambda>a b. 0.5 * (a + b))) (flux_cell (l i j)) (flux_cell (r i j)))"
    using broadcast_grid_is [OF FL FR] by blast
  obtain DeltaFn where DFn: "broadcast_grid einsum_kl_l DeltaF (normals neighs) = Inr DeltaFn"
    "grid_is DeltaFn A (\<lambda>i j. einsum_kl_l
        (map2 (map2 (\<lambda>a b. 0.5 * (a + b))) (flux_cell (l i j)) (flux_cell (r i j))) (n i j))"
    using broadcast_grid_is [OF DF(2) N] by blast
  obtain Qdiff where QD: "broadcast_grid (map2 (-)) (map (map get_conservative) ?QR)
        (map (map get_conservative) ?QL) = Inr Qdiff"
    "grid_is Qdiff A (\<lambda>i j. map2 (-) (get_conservative (r i j)) (get_conservative (l i j)))"
    using broadcast_grid_is [OF grid_is_map [OF R] grid_is_map [OF L]] by blast
  obtain DeltaQ where DQ: "broadcast_grid (\<lambda>sg. map (\<lambda>d. 0.5 * sg * d)) sigma Qdiff = Inr DeltaQ"
    "grid_is DeltaQ A (\<lambda>i j. map (\<lambda>d. 0.5 * ?sg i j * d)
        (map2 (-) (get_conservative (r i j)) (get_conservative (l i j))))"
    using broadcast_grid_is [OF SG(2) QD(2)] by blast
  obtain D where D: "broadcast_grid (map2 (-)) DeltaFn DeltaQ = Inr D"
    "grid_is D A (\<lambda>i j. map2 (-)
        (einsum_kl_l (map2 (map2 (\<lambda>a b. 0.5 * (a + b))) (flux_cell (l i j)) (flux_cell (r i j))) (n i j))
        (map (\<lambda>d. 0.5 * ?sg i j * d)
           (map2 (-) (get_conservative (r i j)) (get_conservative (l i j)))))"
    using broadcast_grid_is [OF DFn(2) DQ(2)] by blast
  obtain W where W: "broadcast_grid (\<lambda>sf. map (\<lambda>x. sf * x)) (surfaces neighs) D = Inr W"
    "grid_is W A (\<lambda>i j. map (\<lambda>x. s i j * x) (map2 (-)
        (einsum_kl_l (map2 (map2 (\<lambda>a b. 0.5 * (a + b))) (flux_cell (l i j)) (flux_cell (r i j))) (n i j))
        (map (\<lambda>d. 0.5 * ?sg i j * d)
           (map2 (-) (get_conservative (r i j)) (get_conservative (l i j))))))"
    using broadcast_grid_is [OF S D(2)] by blast
  have FS: "grid_is (map (map zeros_like) ?QL) A (\<lambda>i j. zeros_like (l i j))"
    by (rule grid_is_map [OF L])
  have bt: "broadcast_to W (map (map zeros_like) ?QL) = Inr W"
    by (rule broadcast_to_is [OF W(2) FS])
  have "\<exists>G. collect_grid (map2 (map2 set_conservative) (map (map zeros_like) ?QL) W) = Inr G
    \<and> grid_is G A (\<lambda>i j. projr (F_face (l i j) (r i j) (n i j) (s i j)))"
    by (rule collect_grid_is [OF grid_is_map2 [OF FS W(2)]])
      (simp only: F_face_unfold [symmetric] F_face_total [symmetric])
  then show ?thesis
    by (simp only: Rusanov_F_def Let_def seq_Inr [OF UL(1)] seq_Inr [OF UR(1)] seq_Inr [OF SG(1)]
        seq_Inr [OF DF(1)] seq_Inr [OF DFn(1)] seq_Inr [OF QD(1)] seq_Inr [OF DQ(1)]
        seq_Inr [OF D(1)] seq_Inr [OF W(1)] seq_Inr [OF bt])
qed

lemma Rusanov_F_grid:
  assumes "same_shape (values cells) (values neighs)"
    and "same_shape (values neighs) (normals neighs)"
    and "same_shape (values neighs) (surfaces neighs)"
  shows "\<exists>G. Rusanov_F cells neighs = Inr G \<and> length G = length (values cells)
    \<and> (\<forall>i<length (values cells). length (G ! i) = length (values cells ! i)
        \<and> (\<forall>j<length (values cells ! i).
             F_face (values cells ! i ! j) (values neighs ! i ! j)
                    (normals neighs ! i ! j) (surfaces neighs ! i ! j) = Inr (G ! i ! j)))"
proof -
  have s1: "same_shape (values neighs) (values cells)"
    and s2: "same_shape (normals neighs) (values cells)"
    and s3: "same_shape (surfaces neighs) (values cells)"
    using assms by (simp_all add: same_shape_def)
  from Rusanov_F_is [OF grid_is_refl grid_is_self [OF s1] grid_is_self [OF s2] grid_is_self [OF s3]]
  obtain G where G: "Rusanov_F cells neighs = Inr G"
    "grid_is G (values cells) (\<lambda>i j. projr (F_face (values cells ! i ! j) (values neighs ! i ! j)
        (normals neighs ! i ! j) (surfaces neighs ! i ! j)))"
    by blast
  from G(2) have "length G = length (values cells)
    \<and> (\<forall>i<length (values cells). length (G ! i) = length (values cells ! i)
        \<and> (\<forall>j<length (values cells ! i).
             F_face (values cells ! i ! j) (values neighs ! i ! j)
                    (normals neighs ! i ! j) (surfaces neighs ! i ! j) = Inr (G ! i ! j)))"
    unfolding grid_is_def by (simp add: F_face_total [symmetric])
  with G(1) show ?thesis by blast
qed

lemma fold_np_add_Finite:
  "fold (\<lambda>x acc. np_add acc x) (map Finite xs) (Finite a) = Finite (a + sum_list xs)"
  by (induction xs arbitrary: a) (simp_all add: add.assoc)

lemma np_sum_Finite: "np_sum (map Finite xs) = Finite (sum_list xs)"
  by (simp add: np_sum_def fold_np_add_Finite)

lemma compute_U_norm_np_Finite: "compute_U_norm_np q n = Finite (compute_U_norm q n)"
  by (simp add: compute_U_norm_np_def compute_U_norm_def np_sum_def)

lemma compute_sigma_cell_np_Finite:
  "compute_sigma_cell_np (Finite u_l) (Finite u_r) (Finite c_l) (Finite c_r) =
     Inr (Finite (max (\<bar>u_l\<bar> + c_l) (\<bar>u_r\<bar> + c_r)))"
  by (simp add: compute_sigma_cell_np_def max.commute)

lemma flux_cell_np_Finite: "flux_cell_np q = map (map Finite) (flux_cell q)"
  by (simp add: flux_cell_np_def flux_cell_def)

lemma F_face_np_Finite:
  "F_face_np ql qr n s = Inr (map Finite (get_conservative (projr (F_face ql qr n s))))"
proof -
  have sg: "compute_sigma_cell_np (compute_U_norm_np ql n) (compute_U_norm_np qr n)
      (Finite (c ql)) (Finite (c qr)) = Inr (Finite (sigma_face ql qr n))"
    by (simp add: compute_U_norm_np_Finite compute_sigma_cell_np_Finite sigma_face_def)
  have np: "F_face_np ql qr n s =
      Inr (map (\<lambda>x. np_multiply (Finite s) x)
             (map2 np_subtract
                (einsum_kl_l_np
                   (map2 (map2 (\<lambda>a b. np_multiply (Finite 0.5) (np_add a b)))
                      (flux_cell_np ql) (flux_cell_np qr)) n)
                (map (\<lambda>d. np_multiply (np_multiply (Finite 0.5) (Finite (sigma_face ql qr n))) d)
                   (map2 np_subtract (map Finite (get_conservative qr))
                      (map Finite (get_conservative ql))))))"
    by (simp only: F_face_np_def Let_def sg sum.case)
  show ?thesis
    unfolding np
    by (simp add: flux_cell_np_def einsum_kl_l_np_def np_sum_def np_subtract_def
        get_conservative_def F_face_explicit zeros_like_def field_simps)
qed

lemma fold_np_add_NaN: "fold (\<lambda>x acc. np_add acc x) xs NaN = NaN"
  by (induction xs) simp_all

lemma np_add_NaN_right: "np_add a NaN = NaN"
  by (cases a) simp_all

lemma fold_np_add_has_NaN:
  "NaN \<in> set xs \<Longrightarrow> fold (\<lambda>x acc. np_add acc x) xs a = NaN"
  by (induction xs arbitrary: a) (auto simp: np_add_NaN_right fold_np_add_NaN)

lemma linalg_norm_np_NaN: "NaN \<in> set v \<Longrightarrow> linalg_norm_np v = NaN"
proof -
  assume "NaN \<in> set v"
  then have "NaN \<in> set (map (\<lambda>x. np_multiply x x) v)"
    by (auto simp: image_iff intro!: bexI [of _ NaN])
  then show ?thesis by (simp add: linalg_norm_np_def np_sum_def fold_np_add_has_NaN)
qed

lemma np_add_PosInf:
  assumes "a \<noteq> NaN" "a \<noteq> NegInf" "x \<noteq> NaN" "x \<noteq> NegInf"
  shows "np_add a x \<noteq> NaN" "np_add a x \<noteq> NegInf"
    "a = PosInf \<or> x = PosInf \<Longrightarrow> np_add a x = PosInf"
  using assms by (cases a; cases x; simp)+

lemma fold_np_add_PosInf:
  assumes "\<forall>x\<in>set xs. x \<noteq> NaN \<and> x \<noteq> NegInf" "a \<noteq> NaN" "a \<noteq> NegInf"
    and "PosInf \<in> set xs \<or> a = PosInf"
  shows "fold (\<lambda>x acc. np_add acc x) xs a = PosInf"
  using assms
proof (induction xs arbitrary: a)
  case Nil
  then show ?case by simp
next
  case (Cons x xs)
  have ok: "x \<noteq> NaN" "x \<noteq> NegInf" using Cons.prems(1) by simp_all
  have "fold (\<lambda>x acc. np_add acc x) xs (np_add a x) = PosInf"
  proof (rule Cons.IH)
    show "\<forall>x\<in>set xs. x \<noteq> NaN \<and> x \<noteq> NegInf" using Cons.prems(1) by simp
    show "np_add a x \<noteq> NaN" "np_add a x \<noteq> NegInf"
      using np_add_PosInf(1,2) [OF Cons.prems(2,3) ok] by simp_all
    show "PosInf \<in> set xs \<or> np_add a x = PosInf"
      using Cons.prems(4) np_add_PosInf(3) [OF Cons.prems(2,3) ok] by auto
  qed
  then show ?case by simp
qed

lemma np_square_cases:
  "x \<noteq> NaN \<Longrightarrow> np_multiply x x \<noteq> NaN \<and> np_multiply x x \<noteq> NegInf
     \<and> (x = PosInf \<or> x = NegInf \<longrightarrow> np_multiply x x = PosInf)"
  by (cases x) simp_all

lemma linalg_norm_np_infinite:
  assumes "PosInf \<in> set v \<or> NegInf \<in> set v" and "NaN \<notin> set v"
  shows "linalg_norm_np v = PosInf"
proof -
  let ?sq = "map (\<lambda>x. np_multiply x x) v"
  have 1: "\<forall>y\<in>set ?sq. y \<noteq> NaN \<and> y \<noteq> NegInf"
  proof
    fix y assume "y \<in> set ?sq"
    then obtain x where "x \<in> set v" "y = np_multiply x x" by auto
    then show "y \<noteq> NaN \<and> y \<noteq> NegInf"
      using assms(2) np_square_cases [of x] by auto
  qed
  from assms(1) obtain x where x: "x \<in> set v" "x = PosInf \<or> x = NegInf" by blast
  then have "x \<noteq> NaN" by auto
  then have "np_multiply x x = PosInf" using np_square_cases x(2) by blast
  then have 2: "PosInf \<in> set ?sq" using x(1) by (auto simp: image_iff intro!: bexI [of _ x])
  have "fold (\<lambda>x acc. np_add acc x) ?sq (Finite 0) = PosInf"
    by (rule fold_np_add_PosInf) (use 1 2 in simp_all)
  then show ?thesis by (simp add: linalg_norm_np_def np_sum_def)
qed

lemma linalg_norm_np_Finite: "linalg_norm_np (map Finite v) = Finite (linalg_norm v)"
proof -
  have "map (\<lambda>x. np_multiply x x) (map Finite v) = map Finite (map (\<lambda>x. \<bar>x\<bar>\<^sup>2) v)"
    by (simp add: power2_eq_square)
  moreover have "0 \<le> sum_list (map (\<lambda>x. \<bar>x\<bar>\<^sup>2) v)"
    by (rule sum_list_nonneg) auto
  ultimately show ?thesis
    by (simp only: linalg_norm_np_def np_sum_Finite linalg_norm_def np_sqrt.simps) simp
qed

lemma CFL_np_Finite: "CFL_np (map Finite Vel) cells cfl = CFL Vel cells cfl"
  by (simp add: CFL_np_def CFL_def linalg_norm_np_Finite split: sum.splits)

lemma CFL_np_nonempty:
  "concat (surfaces cells) \<noteq> [] \<Longrightarrow>
     CFL_np Vel cells cfl =
       Inr (np_divide (Finite (cfl * Min (set (concat (surfaces cells))))) (linalg_norm_np Vel))"
  by (simp add: CFL_np_def amin_Min)

lemma CFL_np_empty:
  assumes "concat (surfaces cells) = []"
  shows "CFL_np Vel cells cfl = Inl ValueError"
proof -
  have "amin (concat (surfaces cells)) = Inl ValueError"
    unfolding assms by simp
  then show ?thesis unfolding CFL_np_def Let_def by (simp only: sum.case)
qed

section \<open>The claims\<close>


text \<open>
  Claim C2. The flux computed for (left, right, normal) is the negation of the flux
  computed for (right, left, -normal), field by field: what leaves one cell through a
  shared face enters the other.
\<close>

theorem Rusanov_F_antisymmetric:
  "\<exists>A B. F_face ql qr n s = Inr A \<and> F_face qr ql (neg_normal n) s = Inr B \<and> A = neg_state B"
proof -
  have "projr (F_face ql qr n s) = neg_state (projr (F_face qr ql (neg_normal n) s))"
    unfolding F_face_explicit sigma_face_swap
    by (simp add: neg_state_def zeros_like_def neg_normal_def field_simps)
  then show ?thesis using F_face_total by blast
qed

text \<open>
  Claim C3. \<open>compute_sigma\<close> returns in every cell the maximum of \<open>|U_L| + c_L\<close> and
  \<open>|U_R| + c_R\<close>; called with the same velocity and the same speed of sound on both
  sides it returns \<open>|U| + c\<close>. This holds for one cell and, on arrays of one shape, for
  every cell of the result, which has the shape of the arguments.
\<close>

theorem compute_sigma_is_max:
  "compute_sigma_cell u_l u_r c_l c_r = Inr (max (\<bar>u_l\<bar> + c_l) (\<bar>u_r\<bar> + c_r))
   \<and> compute_sigma_cell u u cc cc = Inr (\<bar>u\<bar> + cc)
   \<and> (same_shape U_L c_L \<and> same_shape U_R c_R \<and> same_shape U_L U_R \<longrightarrow>
        (\<exists>sigma. compute_sigma U_L U_R c_L c_R = Inr sigma \<and> length sigma = length U_L
          \<and> (\<forall>i<length U_L. length (sigma ! i) = length (U_L ! i)
              \<and> (\<forall>j<length (U_L ! i).
                   sigma ! i ! j = max (\<bar>U_L ! i ! j\<bar> + c_L ! i ! j) (\<bar>U_R ! i ! j\<bar> + c_R ! i ! j)
                   \<and> (U_R = U_L \<and> c_R = c_L \<longrightarrow> sigma ! i ! j = \<bar>U_L ! i ! j\<bar> + c_L ! i ! j)))))"
proof (intro conjI impI)
  show "compute_sigma_cell u_l u_r c_l c_r = Inr (max (\<bar>u_l\<bar> + c_l) (\<bar>u_r\<bar> + c_r))"
    by (rule compute_sigma_cell_max)
  show "compute_sigma_cell u u cc cc = Inr (\<bar>u\<bar> + cc)"
    by (simp add: compute_sigma_cell_max)
next
  assume "same_shape U_L c_L \<and> same_shape U_R c_R \<and> same_shape U_L U_R"
  then obtain sigma where s: "compute_sigma U_L U_R c_L c_R = Inr sigma" "length sigma = length U_L"
    "\<forall>i<length U_L. length (sigma ! i) = length (U_L ! i)
        \<and> (\<forall>j<length (U_L ! i).
             sigma ! i ! j = max (\<bar>U_L ! i ! j\<bar> + c_L ! i ! j) (\<bar>U_R ! i ! j\<bar> + c_R ! i ! j))"
    using compute_sigma_grid by blast
  show "\<exists>sigma. compute_sigma U_L U_R c_L c_R = Inr sigma \<and> length sigma = length U_L
          \<and> (\<forall>i<length U_L. length (sigma ! i) = length (U_L ! i)
              \<and> (\<forall>j<length (U_L ! i).
                   sigma ! i ! j = max (\<bar>U_L ! i ! j\<bar> + c_L ! i ! j) (\<bar>U_R ! i ! j\<bar> + c_R ! i ! j)
                   \<and> (U_R = U_L \<and> c_R = c_L \<longrightarrow> sigma ! i ! j = \<bar>U_L ! i ! j\<bar> + c_L ! i ! j)))"
    using s by (intro exI [of _ sigma]) auto
qed

theorem compute_sigma_is_max_witness:
  "(\<exists>sigma. compute_sigma [[1, - 3]] [[- 2, 1]] [[1, 1]] [[1, 1]] = Inr sigma
      \<and> sigma ! 0 ! 0 = 3 \<and> sigma ! 0 ! 1 = 4)
   \<and> (\<exists>sigma. compute_sigma [[1, - 3]] [[1, - 3]] [[1, 2]] [[1, 2]] = Inr sigma
      \<and> sigma ! 0 ! 0 = 2 \<and> sigma ! 0 ! 1 = 5)"
proof
  have sh: "same_shape [[1, - 3 :: real]] [[1, 1 :: real]] \<and> same_shape [[- 2, 1 :: real]] [[1, 1 :: real]]
      \<and> same_shape [[1, - 3 :: real]] [[- 2, 1 :: real]]"
    by (simp add: same_shape_def)
  from compute_sigma_is_max [of _ _ _ _ _ _ "[[1, - 3]]" "[[1, 1]]" "[[- 2, 1]]" "[[1, 1]]"] sh
  obtain sigma where s: "compute_sigma [[1, - 3]] [[- 2, 1]] [[1, 1]] [[1, 1]] = Inr sigma"
    "\<forall>i<length [[1, - 3 :: real]]. length (sigma ! i) = length ([[1, - 3 :: real]] ! i)
       \<and> (\<forall>j<length ([[1, - 3 :: real]] ! i).
            sigma ! i ! j = max (\<bar>[[1, - 3]] ! i ! j\<bar> + [[1, 1]] ! i ! j) (\<bar>[[- 2, 1]] ! i ! j\<bar> + [[1, 1]] ! i ! j)
            \<and> ([[- 2, 1]] = [[1, - 3 :: real]] \<and> [[1, 1]] = [[1, 1 :: real]] \<longrightarrow>
                 sigma ! i ! j = \<bar>[[1, - 3]] ! i ! j\<bar> + [[1, 1]] ! i ! j))"
    by blast
  from s(2) have "sigma ! 0 ! 0 = 3" "sigma ! 0 ! 1 = 4"
    by (auto dest!: spec [of _ 0] dest: spec [of _ 0] spec [of _ 1])
  with s(1) show "\<exists>sigma. compute_sigma [[1, - 3]] [[- 2, 1]] [[1, 1]] [[1, 1]] = Inr sigma
      \<and> sigma ! 0 ! 0 = 3 \<and> sigma ! 0 ! 1 = 4" by blast
next
  have sh: "same_shape [[1, - 3 :: real]] [[1, 2 :: real]] \<and> same_shape [[1, - 3 :: real]] [[1, 2 :: real]]
      \<and> same_shape [[1, - 3 :: real]] [[1, - 3 :: real]]"
    by (simp add: same_shape_def)
  from compute_sigma_is_max [of _ _ _ _ _ _ "[[1, - 3]]" "[[1, 2]]" "[[1, - 3]]" "[[1, 2]]"] sh
  obtain sigma where s: "compute_sigma [[1, - 3]] [[1, - 3]] [[1, 2]] [[1, 2]] = Inr sigma"
    "\<forall>i<length [[1, - 3 :: real]]. length (sigma ! i) = length ([[1, - 3 :: real]] ! i)
       \<and> (\<forall>j<length ([[1, - 3 :: real]] ! i).
            sigma ! i ! j = max (\<bar>[[1, - 3]] ! i ! j\<bar> + [[1, 2]] ! i ! j) (\<bar>[[1, - 3]] ! i ! j\<bar> + [[1, 2]] ! i ! j)
            \<and> ([[1, - 3]] = [[1, - 3 :: real]] \<and> [[1, 2]] = [[1, 2 :: real]] \<longrightarrow>
                 sigma ! i ! j = \<bar>[[1, - 3]] ! i ! j\<bar> + [[1, 2]] ! i ! j))"
    by blast
  from s(2) have "sigma ! 0 ! 0 = 2" "sigma ! 0 ! 1 = 5"
    by (auto dest!: spec [of _ 0] dest: spec [of _ 0] spec [of _ 1])
  with s(1) show "\<exists>sigma. compute_sigma [[1, - 3]] [[1, - 3]] [[1, 2]] [[1, 2]] = Inr sigma
      \<and> sigma ! 0 ! 0 = 2 \<and> sigma ! 0 ! 1 = 5" by blast
qed

text \<open>
  Claim C4. For a state array, \<open>flux\<close> returns an array of the same mesh shape whose
  entry in every cell is the 4 x 2 tensor with the rows \<open>(rhoU, rhoV)\<close>,
  \<open>(rhoU U + p, rhoU V)\<close>, \<open>(rhoV U, rhoV V + p)\<close> and
  \<open>((rhoE + p) U, (rhoE + p) V)\<close>, read from the fields \<open>rhoU, rhoV, rhoE, U, V, p\<close> of the
  cell. Where the momentum fields are the density times the velocity, these rows are
  \<open>(\<rho>u, \<rho>v)\<close>, \<open>(\<rho>u\<^sup>2 + p, \<rho>uv)\<close>, \<open>(\<rho>vu, \<rho>v\<^sup>2 + p)\<close>, \<open>((\<rho>E + p)u, (\<rho>E + p)v)\<close>.
\<close>

theorem flux_tensor:
  "length (flux A) = length A
   \<and> (\<forall>i<length A. length (flux A ! i) = length (A ! i)
       \<and> (\<forall>j<length (A ! i).
            flux A ! i ! j =
              [[rhoU (A ! i ! j), rhoV (A ! i ! j)],
               [rhoU (A ! i ! j) * U (A ! i ! j) + p (A ! i ! j), rhoU (A ! i ! j) * V (A ! i ! j)],
               [rhoV (A ! i ! j) * U (A ! i ! j), rhoV (A ! i ! j) * V (A ! i ! j) + p (A ! i ! j)],
               [(rhoE (A ! i ! j) + p (A ! i ! j)) * U (A ! i ! j),
                (rhoE (A ! i ! j) + p (A ! i ! j)) * V (A ! i ! j)]]
            \<and> length (flux A ! i ! j) = 4
            \<and> (\<forall>k<4. length (flux A ! i ! j ! k) = 2)
            \<and> (rhoU (A ! i ! j) = rho (A ! i ! j) * U (A ! i ! j)
                 \<and> rhoV (A ! i ! j) = rho (A ! i ! j) * V (A ! i ! j) \<longrightarrow>
               flux A ! i ! j =
                 [[rho (A ! i ! j) * U (A ! i ! j), rho (A ! i ! j) * V (A ! i ! j)],
                  [rho (A ! i ! j) * (U (A ! i ! j))\<^sup>2 + p (A ! i ! j),
                   rho (A ! i ! j) * U (A ! i ! j) * V (A ! i ! j)],
                  [rho (A ! i ! j) * V (A ! i ! j) * U (A ! i ! j),
                   rho (A ! i ! j) * (V (A ! i ! j))\<^sup>2 + p (A ! i ! j)],
                  [(rhoE (A ! i ! j) + p (A ! i ! j)) * U (A ! i ! j),
                   (rhoE (A ! i ! j) + p (A ! i ! j)) * V (A ! i ! j)]])))"
proof -
  have cell: "flux_cell q =
      [[rhoU q, rhoV q], [rhoU q * U q + p q, rhoU q * V q],
       [rhoV q * U q, rhoV q * V q + p q], [(rhoE q + p q) * U q, (rhoE q + p q) * V q]]" for q
    by (simp add: flux_cell_def)
  have rows: "\<forall>k<4. length (flux_cell q ! k) = 2" for q
  proof (intro allI impI)
    fix k :: nat assume "k < 4"
    then consider "k = 0" | "k = 1" | "k = 2" | "k = 3" by linarith
    then show "length (flux_cell q ! k) = 2" by cases (simp_all add: cell)
  qed
  have nth: "flux A ! i ! j = flux_cell (A ! i ! j)" if "i < length A" "j < length (A ! i)" for i j
    using that by (simp add: flux_def)
  show ?thesis
  proof (intro conjI allI impI)
    show "length (flux A) = length A" by (simp add: flux_def)
  next
    fix i assume "i < length A"
    then show "length (flux A ! i) = length (A ! i)" by (simp add: flux_def)
  next
    fix i j assume ij: "i < length A" "j < length (A ! i)"
    show "flux A ! i ! j =
              [[rhoU (A ! i ! j), rhoV (A ! i ! j)],
               [rhoU (A ! i ! j) * U (A ! i ! j) + p (A ! i ! j), rhoU (A ! i ! j) * V (A ! i ! j)],
               [rhoV (A ! i ! j) * U (A ! i ! j), rhoV (A ! i ! j) * V (A ! i ! j) + p (A ! i ! j)],
               [(rhoE (A ! i ! j) + p (A ! i ! j)) * U (A ! i ! j),
                (rhoE (A ! i ! j) + p (A ! i ! j)) * V (A ! i ! j)]]"
      unfolding nth [OF ij] by (rule cell)
    show "length (flux A ! i ! j) = 4"
      unfolding nth [OF ij] by (simp add: cell)
    fix k :: nat assume "k < 4"
    then show "length (flux A ! i ! j ! k) = 2"
      unfolding nth [OF ij] using rows by blast
  next
    fix i j assume ij: "i < length A" "j < length (A ! i)"
      and cons: "rhoU (A ! i ! j) = rho (A ! i ! j) * U (A ! i ! j)
                 \<and> rhoV (A ! i ! j) = rho (A ! i ! j) * V (A ! i ! j)"
    show "flux A ! i ! j =
                 [[rho (A ! i ! j) * U (A ! i ! j), rho (A ! i ! j) * V (A ! i ! j)],
                  [rho (A ! i ! j) * (U (A ! i ! j))\<^sup>2 + p (A ! i ! j),
                   rho (A ! i ! j) * U (A ! i ! j) * V (A ! i ! j)],
                  [rho (A ! i ! j) * V (A ! i ! j) * U (A ! i ! j),
                   rho (A ! i ! j) * (V (A ! i ! j))\<^sup>2 + p (A ! i ! j)],
                  [(rhoE (A ! i ! j) + p (A ! i ! j)) * U (A ! i ! j),
                   (rhoE (A ! i ! j) + p (A ! i ! j)) * V (A ! i ! j)]]"
      unfolding nth [OF ij] cell using cons by (simp add: power2_eq_square)
  qed
qed

theorem flux_tensor_witness:
  "flux [[\<lparr>rho = 2, rhoU = 6, rhoV = 8, rhoE = 10, rhoe = 0, U = 3, V = 4, p = 5, c = 1\<rparr>]] ! 0 ! 0
     = [[6, 8], [23, 24], [24, 37], [45, 60]]
   \<and> length (flux [[\<lparr>rho = 2, rhoU = 6, rhoV = 8, rhoE = 10, rhoe = 0, U = 3, V = 4, p = 5, c = 1\<rparr>]]
        ! 0 ! 0 ! 3) = 2"
  using flux_tensor [of "[[\<lparr>rho = 2, rhoU = 6, rhoV = 8, rhoE = 10, rhoe = 0, U = 3, V = 4, p = 5, c = 1\<rparr>]]"]
  by simp

text \<open>
  Claim C5 says that \<open>eigs\<close> returns \<open>u +- c\<close> and \<open>v +- c\<close> for every normal array. For the
  state with \<open>u = 3\<close>, \<open>v = 4\<close>, \<open>c = 2\<close> and the normal \<open>(-1, 0)\<close> it returns \<open>-1\<close> and
  \<open>-5\<close>, which is neither \<open>(u + c, u - c)\<close> nor \<open>(v + c, v - c)\<close>.
\<close>

theorem eigs_reversed_normal_counterexample:
  "eigs [[\<lparr>rho = 1, rhoU = 3, rhoV = 4, rhoE = 9, rhoe = 0, U = 3, V = 4, p = 5, c = 2\<rparr>]]
        [[(- 1, 0)]] = Inr [[\<lparr>UPLUS = - 1, UMINUS = - 5\<rparr>]]
   \<and> \<lparr>UPLUS = - 1, UMINUS = - 5\<rparr> \<noteq> \<lparr>UPLUS = 3 + 2, UMINUS = 3 - (2 :: real)\<rparr>
   \<and> \<lparr>UPLUS = - 1, UMINUS = - 5\<rparr> \<noteq> \<lparr>UPLUS = 4 + 2, UMINUS = 4 - (2 :: real)\<rparr>"
  by (simp add: eigs_def broadcast_grid_def broadcast_axis_def broadcast_to_def assign_axis_def)

text \<open>
  Claim C5, amended. For a state array and a normal array of the same mesh shape, \<open>eigs\<close>
  returns in every cell exactly two values, \<open>U\<^sub>n + c\<close> and \<open>U\<^sub>n - c\<close>, where
  \<open>U\<^sub>n = u n\<^sub>x + v n\<^sub>y\<close> is the velocity projected on the face normal of the cell. For the
  normal of the x direction they are \<open>u + c\<close> and \<open>u - c\<close>, for the normal of the y
  direction \<open>v + c\<close> and \<open>v - c\<close>; the projected velocity itself is not among the returned
  values.
\<close>

theorem eigs_normal_speeds:
  "same_shape A N \<longrightarrow>
     (\<exists>E. eigs A N = Inr E \<and> length E = length A
      \<and> (\<forall>i<length A. length (E ! i) = length (A ! i)
          \<and> (\<forall>j<length (A ! i).
               E ! i ! j = \<lparr>UPLUS = U (A ! i ! j) * fst (N ! i ! j) + V (A ! i ! j) * snd (N ! i ! j)
                                      + c (A ! i ! j),
                            UMINUS = U (A ! i ! j) * fst (N ! i ! j) + V (A ! i ! j) * snd (N ! i ! j)
                                      - c (A ! i ! j)\<rparr>
               \<and> (N ! i ! j = (1, 0) \<longrightarrow>
                    E ! i ! j = \<lparr>UPLUS = U (A ! i ! j) + c (A ! i ! j),
                                 UMINUS = U (A ! i ! j) - c (A ! i ! j)\<rparr>)
               \<and> (N ! i ! j = (0, 1) \<longrightarrow>
                    E ! i ! j = \<lparr>UPLUS = V (A ! i ! j) + c (A ! i ! j),
                                 UMINUS = V (A ! i ! j) - c (A ! i ! j)\<rparr>))))"
proof
  assume "same_shape A N"
  then obtain E where E: "eigs A N = Inr E" "length E = length A"
    "\<forall>i<length A. length (E ! i) = length (A ! i)
        \<and> (\<forall>j<length (A ! i). E ! i ! j = eigs_cell (A ! i ! j) (N ! i ! j))"
    using eigs_grid by blast
  show "\<exists>E. eigs A N = Inr E \<and> length E = length A
      \<and> (\<forall>i<length A. length (E ! i) = length (A ! i)
          \<and> (\<forall>j<length (A ! i).
               E ! i ! j = \<lparr>UPLUS = U (A ! i ! j) * fst (N ! i ! j) + V (A ! i ! j) * snd (N ! i ! j)
                                      + c (A ! i ! j),
                            UMINUS = U (A ! i ! j) * fst (N ! i ! j) + V (A ! i ! j) * snd (N ! i ! j)
                                      - c (A ! i ! j)\<rparr>
               \<and> (N ! i ! j = (1, 0) \<longrightarrow>
                    E ! i ! j = \<lparr>UPLUS = U (A ! i ! j) + c (A ! i ! j),
                                 UMINUS = U (A ! i ! j) - c (A ! i ! j)\<rparr>)
               \<and> (N ! i ! j = (0, 1) \<longrightarrow>
                    E ! i ! j = \<lparr>UPLUS = V (A ! i ! j) + c (A ! i ! j),
                                 UMINUS = V (A ! i ! j) - c (A ! i ! j)\<rparr>)))"
    using E by (intro exI [of _ E]) (simp add: eigs_cell_def Let_def)
qed

theorem eigs_normal_speeds_witness:
  "\<exists>E. eigs [[\<lparr>rho = 1, rhoU = 3, rhoV = 4, rhoE = 9, rhoe = 0, U = 3, V = 4, p = 5, c = 2\<rparr>,
               \<lparr>rho = 1, rhoU = 3, rhoV = 4, rhoE = 9, rhoe = 0, U = 3, V = 4, p = 5, c = 2\<rparr>]]
             [[(1, 0), (0, 1)]] = Inr E
       \<and> E ! 0 ! 0 = \<lparr>UPLUS = 5, UMINUS = 1\<rparr> \<and> E ! 0 ! 1 = \<lparr>UPLUS = 6, UMINUS = 2\<rparr>"
proof -
  let ?q = "\<lparr>rho = 1, rhoU = 3, rhoV = 4, rhoE = 9, rhoe = 0, U = 3, V = 4, p = 5, c = 2\<rparr>"
  let ?A = "[[?q, ?q]]" and ?N = "[[(1, 0), (0, 1)]] :: (real \<times> real) grid"
  have sh: "same_shape ?A ?N" by (simp add: same_shape_def)
  from eigs_normal_speeds [of ?A ?N] sh
  obtain E where E: "eigs ?A ?N = Inr E"
    and all: "\<forall>i<length ?A. length (E ! i) = length (?A ! i)
          \<and> (\<forall>j<length (?A ! i).
               E ! i ! j = \<lparr>UPLUS = U (?A ! i ! j) * fst (?N ! i ! j) + V (?A ! i ! j) * snd (?N ! i ! j)
                                      + c (?A ! i ! j),
                            UMINUS = U (?A ! i ! j) * fst (?N ! i ! j) + V (?A ! i ! j) * snd (?N ! i ! j)
                                      - c (?A ! i ! j)\<rparr>
               \<and> (?N ! i ! j = (1, 0) \<longrightarrow>
                    E ! i ! j = \<lparr>UPLUS = U (?A ! i ! j) + c (?A ! i ! j),
                                 UMINUS = U (?A ! i ! j) - c (?A ! i ! j)\<rparr>)
               \<and> (?N ! i ! j = (0, 1) \<longrightarrow>
                    E ! i ! j = \<lparr>UPLUS = V (?A ! i ! j) + c (?A ! i ! j),
                                 UMINUS = V (?A ! i ! j) - c (?A ! i ! j)\<rparr>))"
    by blast
  from all have "E ! 0 ! 0 = \<lparr>UPLUS = 5, UMINUS = 1\<rparr>" "E ! 0 ! 1 = \<lparr>UPLUS = 6, UMINUS = 2\<rparr>"
    by (auto dest!: spec [of _ 0] dest: spec [of _ 0] spec [of _ 1])
  with E show ?thesis by blast
qed

text \<open>
  Claim C6. On a cell set with at least one surface entry and for a non-zero advection
  velocity, \<open>CFL\<close> returns \<open>cfl_number * min_cell_size / wave_speed\<close>, where the cell
  size is the least entry of \<open>cells.surfaces\<close> and the wave speed, the same in all
  cells, is the norm of the velocity. Doubling the velocity doubles the wave speed and
  halves the returned step. For the velocity of the test module the wave speed is 1.
\<close>

theorem CFL_step:
  "(concat (surfaces cells) \<noteq> [] \<and> linalg_norm Vel \<noteq> 0 \<longrightarrow>
      CFL Vel cells cfl =
        Inr (Finite (cfl * Min (set (concat (surfaces cells))) / linalg_norm Vel))
      \<and> linalg_norm (map (\<lambda>x. 2 * x) Vel) = 2 * linalg_norm Vel
      \<and> CFL (map (\<lambda>x. 2 * x) Vel) cells cfl =
        Inr (Finite (cfl * Min (set (concat (surfaces cells))) / linalg_norm Vel / 2)))
   \<and> (concat (surfaces cells) \<noteq> [] \<longrightarrow>
      CFL V_adv cells cfl = Inr (Finite (cfl * Min (set (concat (surfaces cells))) / 1)))"
  by (simp add: CFL_nonempty linalg_norm_double linalg_norm_V_adv true_divide_def)

theorem CFL_step_witness:
  "CFL V_adv \<lparr>values = [[[0 :: real], [1]]], normals = [[(1, 0), (1, 0)]],
              surfaces = [[1 / 2, 1 / 4]]\<rparr> (1 / 2) = Inr (Finite (1 / 8))
   \<and> CFL (map (\<lambda>x. 2 * x) V_adv) \<lparr>values = [[[0 :: real], [1]]], normals = [[(1, 0), (1, 0)]],
              surfaces = [[1 / 2, 1 / 4]]\<rparr> (1 / 2) = Inr (Finite (1 / 16))"
proof -
  let ?cells = "\<lparr>values = [[[0 :: real], [1]]], normals = [[(1, 0), (1, 0)]],
              surfaces = [[1 / 2, 1 / 4]]\<rparr>"
  have ne: "concat (surfaces ?cells) \<noteq> []" by simp
  have nz: "linalg_norm V_adv \<noteq> 0" by (simp add: linalg_norm_V_adv)
  have m: "Min (set (concat (surfaces ?cells))) = 1 / 4" by simp
  from CFL_step [of ?cells V_adv "1 / 2"] ne nz
  have "CFL V_adv ?cells (1 / 2) = Inr (Finite (1 / 2 * Min (set (concat (surfaces ?cells))) / 1))"
    and "CFL (map (\<lambda>x. 2 * x) V_adv) ?cells (1 / 2) =
        Inr (Finite (1 / 2 * Min (set (concat (surfaces ?cells))) / linalg_norm V_adv / 2))"
    by blast+
  then show ?thesis unfolding m linalg_norm_V_adv by simp
qed

text \<open>
  Claim C7 says that \<open>CFL\<close> fails, by NaN or by raising, on a degenerate mesh and for
  a wave speed that is not finite. On a cell set whose least surface entry is zero the
  method returns the ordinary value 0, and so it does for an infinite velocity
  component.
\<close>

theorem CFL_degenerate_counterexample:
  "amin (concat (surfaces \<lparr>values = [[[0 :: real], [1]]], normals = [[(1, 0), (1, 0)]],
                          surfaces = [[0, 1]]\<rparr>)) = Inr 0
   \<and> CFL V_adv \<lparr>values = [[[0 :: real], [1]]], normals = [[(1, 0), (1, 0)]],
                surfaces = [[0, 1]]\<rparr> (1 / 2) = Inr (Finite 0)
   \<and> CFL_np [PosInf, Finite 0] \<lparr>values = [[[0 :: real], [1]]], normals = [[(1, 0), (1, 0)]],
                surfaces = [[1 / 2, 1]]\<rparr> (1 / 2) = Inr (Finite 0)"
  by (simp add: CFL_def CFL_np_def linalg_norm_V_adv true_divide_def linalg_norm_np_def
      np_sum_def signed_inf_def)

text \<open>
  Claim C7, amended. If a component of the wave speed is NaN, \<open>CFL\<close> fails: it returns
  NaN, or raises when the cell set has no surface entry. On a degenerate mesh (least
  surface entry zero) with a finite non-zero wave speed, and for a wave speed with an
  infinite component and none that is NaN, it returns the ordinary step 0.
\<close>

theorem CFL_failure_modes:
  "(NaN \<in> set Vel \<longrightarrow>
      (if concat (surfaces cells) = [] then CFL_np Vel cells cfl = Inl ValueError
       else CFL_np Vel cells cfl = Inr NaN))
   \<and> (concat (surfaces cells) \<noteq> [] \<and> Min (set (concat (surfaces cells))) = 0
        \<and> linalg_norm W \<noteq> 0 \<longrightarrow>
      CFL W cells cfl = Inr (Finite 0) \<and> CFL_np (map Finite W) cells cfl = Inr (Finite 0))
   \<and> (concat (surfaces cells) \<noteq> [] \<and> (PosInf \<in> set Vel \<or> NegInf \<in> set Vel) \<and> NaN \<notin> set Vel \<longrightarrow>
      CFL_np Vel cells cfl = Inr (Finite 0))"
proof (intro conjI impI)
  assume "NaN \<in> set Vel"
  then have n: "linalg_norm_np Vel = NaN" by (rule linalg_norm_np_NaN)
  show "if concat (surfaces cells) = [] then CFL_np Vel cells cfl = Inl ValueError
       else CFL_np Vel cells cfl = Inr NaN"
  proof (cases "concat (surfaces cells) = []")
    case True
    have "CFL_np Vel cells cfl = Inl ValueError" by (rule CFL_np_empty [OF True])
    then show ?thesis using True by (simp only: if_P if_True)
  next
    case False
    have "CFL_np Vel cells cfl = Inr NaN"
      using CFL_np_nonempty [OF False, of Vel cfl] n by simp
    then show ?thesis using False by (simp only: if_not_P if_False)
  qed
next
  assume a: "concat (surfaces cells) \<noteq> [] \<and> Min (set (concat (surfaces cells))) = 0
        \<and> linalg_norm W \<noteq> 0"
  then show "CFL W cells cfl = Inr (Finite 0)"
    by (simp add: CFL_nonempty true_divide_def)
  then show "CFL_np (map Finite W) cells cfl = Inr (Finite 0)"
    by (simp only: CFL_np_Finite)
next
  assume a: "concat (surfaces cells) \<noteq> [] \<and> (PosInf \<in> set Vel \<or> NegInf \<in> set Vel) \<and> NaN \<notin> set Vel"
  then have "linalg_norm_np Vel = PosInf" by (simp add: linalg_norm_np_infinite)
  with a show "CFL_np Vel cells cfl = Inr (Finite 0)"
    by (simp add: CFL_np_nonempty)
qed

theorem CFL_failure_modes_witness:
  "CFL_np [NaN, Finite 0] \<lparr>values = [[[0 :: real], [1]]], normals = [[(1, 0), (1, 0)]],
                surfaces = [[1 / 2, 1]]\<rparr> (1 / 2) = Inr NaN
   \<and> CFL_np [NaN, Finite 0] \<lparr>values = ([] :: real list grid), normals = [], surfaces = []\<rparr> (1 / 2)
       = Inl ValueError
   \<and> CFL V_adv \<lparr>values = [[[0 :: real], [1]]], normals = [[(1, 0), (1, 0)]],
                surfaces = [[0, 1]]\<rparr> (1 / 2) = Inr (Finite 0)
   \<and> CFL_np [NegInf, Finite 0] \<lparr>values = [[[0 :: real], [1]]], normals = [[(1, 0), (1, 0)]],
                surfaces = [[1 / 2, 1]]\<rparr> (1 / 2) = Inr (Finite 0)"
proof -
  let ?empty = "\<lparr>values = ([] :: real list grid), normals = [], surfaces = []\<rparr>"
  let ?deg = "\<lparr>values = [[[0 :: real], [1]]], normals = [[(1, 0), (1, 0)]],
                surfaces = [[0, 1]]\<rparr>"
  let ?cells = "\<lparr>values = [[[0 :: real], [1]]], normals = [[(1, 0), (1, 0)]],
                surfaces = [[1 / 2, 1]]\<rparr>"
  have n: "NaN \<in> set [NaN, Finite 0]" by simp
  from CFL_failure_modes [of "[NaN, Finite 0]" ?cells "1 / 2"] n
  have 1: "CFL_np [NaN, Finite 0] ?cells (1 / 2) = Inr NaN" by simp
  from CFL_failure_modes [of "[NaN, Finite 0]" ?empty "1 / 2"] n
  have 2: "CFL_np [NaN, Finite 0] ?empty (1 / 2) = Inl ValueError" by simp
  have d: "concat (surfaces ?deg) \<noteq> [] \<and> Min (set (concat (surfaces ?deg))) = 0
        \<and> linalg_norm V_adv \<noteq> 0"
    by (simp add: linalg_norm_V_adv)
  from CFL_failure_modes [of _ ?deg "1 / 2" V_adv] d
  have 3: "CFL V_adv ?deg (1 / 2) = Inr (Finite 0)" by blast
  have i: "concat (surfaces ?cells) \<noteq> []
      \<and> (PosInf \<in> set [NegInf, Finite 0] \<or> NegInf \<in> set [NegInf, Finite 0])
      \<and> NaN \<notin> set [NegInf, Finite 0]" by simp
  from CFL_failure_modes [of "[NegInf, Finite 0]" ?cells "1 / 2"] i
  have 4: "CFL_np [NegInf, Finite 0] ?cells (1 / 2) = Inr (Finite 0)" by blast
  from 1 2 3 4 show ?thesis by blast
qed

text \<open>
  Claim C8 asks for the trial values of stage \<open>k\<close> to be the cell values minus
  \<open>dt * \<Sum>\<^sub>j\<^sub><\<^sub>k a[k,j] * residual[j]\<close>. The stage evaluation gives every cached residual the
  same weight, the sum of a slice of \<open>a_s\<close>, whatever the tableau holds (lemma
  \<open>trial_values_uniform\<close>): at stage 2 the trial values for the cached residuals
  \<open>[1, 0]\<close> and \<open>[0, 1]\<close> coincide. For the third-order tableau of Kutta, whose last
  row is \<open>a[2,0] = -1\<close>, \<open>a[2,1] = 2\<close>, they are \<open>-1\<close> both times, where the formula of
  the claim gives \<open>1\<close> and \<open>-2\<close>. The last conjunct runs all three stages on a scalar
  state. That every stage is evaluated once, in increasing order, is lemma
  \<open>RKDG_k_once\<close>.
\<close>

theorem RKDG_k_uniform_weights:
  "trial_values butcher (0 :: real) 1 2 [1, 0] = trial_values butcher 0 1 2 [0, 1]
   \<and> trial_values \<lparr>a_s = [0, 1 / 2, - 1, 2], b_s = [1 / 6, 2 / 3, 1 / 6], c_s = [0, 1 / 2, 1]\<rparr>
       (0 :: real) 1 2 [1, 0] = - 1
   \<and> trial_values \<lparr>a_s = [0, 1 / 2, - 1, 2], b_s = [1 / 6, 2 / 3, 1 / 6], c_s = [0, 1 / 2, 1]\<rparr>
       (0 :: real) 1 2 [0, 1] = - 1
   \<and> RKDG_k (\<lambda>v t f. f + v)
        \<lparr>a_s = [0, 1 / 2, - 1, 2], b_s = [1 / 6, 2 / 3, 1 / 6], c_s = [0, 1 / 2, 1]\<rparr>
        (1 :: real) 1 0 2 \<lparr>ks = [0, 0], fluxes = 0, trace = []\<rparr>
      = Inr \<lparr>ks = [1, 3 / 2], fluxes = - (3 / 2),
             trace = [(0, 1, 1), (1, 3 / 2, 3 / 2), (2, - (3 / 2), - (3 / 2))]\<rparr>"
proof (intro conjI)
  show "trial_values butcher (0 :: real) 1 2 [1, 0] = trial_values butcher 0 1 2 [0, 1]"
    by (simp add: trial_values_uniform)
qed (simp_all add: trial_values_def einsum_i_j_def slice_def stage_def Let_def numeral_2_eq_2)

text \<open>
  Claim C9. The Rusanov rule divides nowhere. In the extended numbers, where a division
  by zero shows as an infinity or NaN in the result, \<open>compute_sigma\<close> and \<open>F\<close> return
  for all finite states, normals and surfaces, a zero density or speed of sound
  included, finite values only, the values of the model over the reals, and raise
  nothing. On arrays of one shape \<open>F\<close> returns the array of the face values. With both
  normal velocities and both speeds of sound zero, \<open>\<sigma>\<close> is zero, and whenever \<open>\<sigma>\<close> is
  zero the conservative part of the result is the central average
  \<open>0.5 (F(left) + F(right)) \<cdot> normal\<close> times the surface length.
\<close>

theorem Rusanov_total_and_central:
  "(\<exists>sigma. compute_sigma_cell u_l u_r c_l c_r = Inr sigma)
   \<and> (\<exists>FS. F_face ql qr n s = Inr FS)
   \<and> (same_shape (values cells) (values neighs) \<and> same_shape (values neighs) (normals neighs)
        \<and> same_shape (values neighs) (surfaces neighs) \<longrightarrow>
       (\<exists>G. Rusanov_F cells neighs = Inr G))
   \<and> (compute_U_norm ql n = 0 \<and> compute_U_norm qr n = 0 \<and> c ql = 0 \<and> c qr = 0 \<longrightarrow>
       compute_sigma_cell (compute_U_norm ql n) (compute_U_norm qr n) (c ql) (c qr) = Inr 0)
   \<and> (compute_sigma_cell (compute_U_norm ql n) (compute_U_norm qr n) (c ql) (c qr) = Inr 0 \<longrightarrow>
       (\<exists>FS. F_face ql qr n s = Inr FS
          \<and> get_conservative FS =
              map (\<lambda>x. x * s)
                (einsum_kl_l (map2 (map2 (\<lambda>a b. 0.5 * (a + b))) (flux_cell ql) (flux_cell qr)) n)))
   \<and> compute_sigma_cell_np (Finite u_l) (Finite u_r) (Finite c_l) (Finite c_r) =
       Inr (Finite (max (\<bar>u_l\<bar> + c_l) (\<bar>u_r\<bar> + c_r)))
   \<and> (\<exists>FS. F_face ql qr n s = Inr FS
        \<and> F_face_np ql qr n s = Inr (map Finite (get_conservative FS)))
   \<and> (same_shape (values cells) (values neighs) \<and> same_shape (values neighs) (normals neighs)
        \<and> same_shape (values neighs) (surfaces neighs) \<longrightarrow>
       (\<exists>G. Rusanov_F cells neighs = Inr G \<and> length G = length (values cells)
          \<and> (\<forall>i<length (values cells). length (G ! i) = length (values cells ! i)
              \<and> (\<forall>j<length (values cells ! i).
                   F_face (values cells ! i ! j) (values neighs ! i ! j)
                          (normals neighs ! i ! j) (surfaces neighs ! i ! j) = Inr (G ! i ! j)))))"
proof (intro conjI impI)
  show "\<exists>sigma. compute_sigma_cell u_l u_r c_l c_r = Inr sigma"
    by (simp add: compute_sigma_cell_max)
  show "\<exists>FS. F_face ql qr n s = Inr FS"
    using F_face_total by blast
  show "compute_sigma_cell_np (Finite u_l) (Finite u_r) (Finite c_l) (Finite c_r) =
       Inr (Finite (max (\<bar>u_l\<bar> + c_l) (\<bar>u_r\<bar> + c_r)))"
    by (rule compute_sigma_cell_np_Finite)
  show "\<exists>FS. F_face ql qr n s = Inr FS
        \<and> F_face_np ql qr n s = Inr (map Finite (get_conservative FS))"
    using F_face_total F_face_np_Finite by blast
next
  assume "same_shape (values cells) (values neighs) \<and> same_shape (values neighs) (normals neighs)
        \<and> same_shape (values neighs) (surfaces neighs)"
  then show "\<exists>G. Rusanov_F cells neighs = Inr G"
    using Rusanov_F_grid [of cells neighs] by blast
next
  assume "compute_U_norm ql n = 0 \<and> compute_U_norm qr n = 0 \<and> c ql = 0 \<and> c qr = 0"
  then show "compute_sigma_cell (compute_U_norm ql n) (compute_U_norm qr n) (c ql) (c qr) = Inr 0"
    by (simp add: compute_sigma_cell_max)
next
  assume "compute_sigma_cell (compute_U_norm ql n) (compute_U_norm qr n) (c ql) (c qr) = Inr 0"
  then have z: "sigma_face ql qr n = 0"
    by (simp add: compute_sigma_cell_max sigma_face_def)
  have "get_conservative (projr (F_face ql qr n s)) =
          map (\<lambda>x. x * s)
            (einsum_kl_l (map2 (map2 (\<lambda>a b. 0.5 * (a + b))) (flux_cell ql) (flux_cell qr)) n)"
    by (simp add: F_face_explicit z get_conservative_def zeros_like_def einsum_kl_l_def
        flux_cell_def Let_def field_simps)
  then show "\<exists>FS. F_face ql qr n s = Inr FS
          \<and> get_conservative FS =
              map (\<lambda>x. x * s)
                (einsum_kl_l (map2 (map2 (\<lambda>a b. 0.5 * (a + b))) (flux_cell ql) (flux_cell qr)) n)"
    using F_face_total by blast
next
  assume "same_shape (values cells) (values neighs) \<and> same_shape (values neighs) (normals neighs)
        \<and> same_shape (values neighs) (surfaces neighs)"
  then show "\<exists>G. Rusanov_F cells neighs = Inr G \<and> length G = length (values cells)
          \<and> (\<forall>i<length (values cells). length (G ! i) = length (values cells ! i)
              \<and> (\<forall>j<length (values cells ! i).
                   F_face (values cells ! i ! j) (values neighs ! i ! j)
                          (normals neighs ! i ! j) (surfaces neighs ! i ! j) = Inr (G ! i ! j)))"
    using Rusanov_F_grid [of cells neighs] by blast
qed

theorem Rusanov_total_and_central_witness:
  "(\<exists>G. Rusanov_F
          \<lparr>values = [[\<lparr>rho = 0, rhoU = 0, rhoV = 0, rhoE = 2, rhoe = 2, U = 0, V = 0, p = 4, c = 0\<rparr>]],
           normals = [[(1, 0)]], surfaces = [[2]]\<rparr>
          \<lparr>values = [[\<lparr>rho = 3, rhoU = 0, rhoV = 0, rhoE = 5, rhoe = 5, U = 0, V = 0, p = 6, c = 0\<rparr>]],
           normals = [[(1, 0)]], surfaces = [[2]]\<rparr> = Inr G
        \<and> get_conservative (G ! 0 ! 0) = [0, 10, 0, 0])
   \<and> (\<exists>FS. F_face \<lparr>rho = 0, rhoU = 0, rhoV = 0, rhoE = 2, rhoe = 2, U = 0, V = 0, p = 4, c = 0\<rparr>
                  \<lparr>rho = 3, rhoU = 0, rhoV = 0, rhoE = 5, rhoe = 5, U = 0, V = 0, p = 6, c = 0\<rparr>
                  (1, 0) 2 = Inr FS
          \<and> get_conservative FS = [0, 10, 0, 0])
   \<and> F_face_np \<lparr>rho = 0, rhoU = 0, rhoV = 0, rhoE = 2, rhoe = 2, U = 0, V = 0, p = 4, c = 0\<rparr>
                \<lparr>rho = 3, rhoU = 0, rhoV = 0, rhoE = 5, rhoe = 5, U = 0, V = 0, p = 6, c = 0\<rparr>
                (1, 0) 2 = Inr [Finite 0, Finite 10, Finite 0, Finite 0]"
proof -
  let ?ql = "\<lparr>rho = 0, rhoU = 0, rhoV = 0, rhoE = 2, rhoe = 2, U = 0, V = 0, p = 4, c = 0\<rparr>"
  let ?qr = "\<lparr>rho = 3, rhoU = 0, rhoV = 0, rhoE = 5, rhoe = 5, U = 0, V = 0, p = 6, c = 0\<rparr>"
  let ?cells = "\<lparr>values = [[?ql]], normals = [[(1, 0)]], surfaces = [[2]]\<rparr>"
  let ?neighs = "\<lparr>values = [[?qr]], normals = [[(1, 0)]], surfaces = [[2]]\<rparr>"
  note inst = Rusanov_total_and_central [of _ _ _ _ ?ql ?qr "(1, 0)" 2 ?cells ?neighs]
  have sh: "same_shape (values ?cells) (values ?neighs)
        \<and> same_shape (values ?neighs) (normals ?neighs)
        \<and> same_shape (values ?neighs) (surfaces ?neighs)"
    by (simp add: same_shape_def)
  have rest: "compute_U_norm ?ql (1, 0) = 0 \<and> compute_U_norm ?qr (1, 0) = 0 \<and> c ?ql = 0 \<and> c ?qr = 0"
    by (simp add: compute_U_norm_def)
  from inst rest have "compute_sigma_cell (compute_U_norm ?ql (1, 0)) (compute_U_norm ?qr (1, 0))
      (c ?ql) (c ?qr) = Inr 0" by blast
  with inst obtain FS where FS: "F_face ?ql ?qr (1, 0) 2 = Inr FS"
    "get_conservative FS = map (\<lambda>x. x * 2)
        (einsum_kl_l (map2 (map2 (\<lambda>a b. 0.5 * (a + b))) (flux_cell ?ql) (flux_cell ?qr)) (1, 0))"
    by blast
  from FS(2) have cons: "get_conservative FS = [0, 10, 0, 0]"
    by (simp add: einsum_kl_l_def flux_cell_def)
  from inst obtain FS' where "F_face ?ql ?qr (1, 0) 2 = Inr FS'"
    "F_face_np ?ql ?qr (1, 0) 2 = Inr (map Finite (get_conservative FS'))"
    by blast
  with FS(1) cons have np: "F_face_np ?ql ?qr (1, 0) 2 = Inr [Finite 0, Finite 10, Finite 0, Finite 0]"
    by simp
  from inst sh obtain G where G: "Rusanov_F ?cells ?neighs = Inr G"
    "\<forall>i<length (values ?cells). length (G ! i) = length (values ?cells ! i)
       \<and> (\<forall>j<length (values ?cells ! i).
            F_face (values ?cells ! i ! j) (values ?neighs ! i ! j)
                   (normals ?neighs ! i ! j) (surfaces ?neighs ! i ! j) = Inr (G ! i ! j))"
    by blast
  from G(2) have "F_face ?ql ?qr (1, 0) 2 = Inr (G ! 0 ! 0)"
    by (auto dest!: spec [of _ 0])
  with FS(1) cons have "get_conservative (G ! 0 ! 0) = [0, 10, 0, 0]" by simp
  with G(1) FS(1) cons np show ?thesis by blast
qed

text \<open>
  Claim C10. The state returned by \<open>Rusanov.F\<close> is zero in every field outside the
  conservative sub-range (internal energy, velocity components, pressure, speed of
  sound): it is the zero state with its conservative sub-range overwritten.
\<close>

theorem Rusanov_F_frame:
  "\<exists>FS. F_face ql qr n s = Inr FS
     \<and> rhoe FS = 0 \<and> U FS = 0 \<and> V FS = 0 \<and> p FS = 0 \<and> c FS = 0
     \<and> set_conservative (zeros_like ql) (get_conservative FS) = Inr FS"
  by (simp add: F_face_explicit zeros_like_def get_conservative_def)

end
